theory Spec2Isabelle
  imports Complex_Main "HOL-Library.Word" "HOL-Library.Log_Nat"
begin

section \<open>The timerfd extension module (timerfd_c.c)\<close>

text \<open>
  The module wraps four system calls. Each exported function parses its Python arguments,
  prepares the C arguments, performs one system call and turns the return value or
  \<open>errno\<close> into a Python result. The model follows the source on x86-64 Linux:
  \<open>int\<close> has 32 bits, \<open>long\<close>, \<open>time_t\<close> and \<open>ssize_t\<close> have 64 bits in two's
  complement, \<open>double\<close> is IEEE 754 binary64 with round-to-nearest-even.
\<close>

subsection \<open>C integer ranges and error numbers\<close>

definition INT_MIN :: int where
  "INT_MIN = - (2 ^ 31)"

definition INT_MAX :: int where
  "INT_MAX = 2 ^ 31 - 1"

definition LONG_MIN :: int where
  "LONG_MIN = - (2 ^ 63)"

definition LONG_MAX :: int where
  "LONG_MAX = 2 ^ 63 - 1"

definition EINTR :: int where
  "EINTR = 4"

definition EIO :: int where
  "EIO = 5"

definition EINVAL :: int where
  "EINVAL = 22"

subsection \<open>Outcomes of an exported function\<close>

text \<open>
  A call either returns a Python value or raises. \<open>OverflowError\<close> is raised by
  \<open>PyArg_ParseTuple\<close> for an integer outside the range of its format unit; \<open>OSError n\<close>
  is the exception built from \<open>errno = n\<close>; \<open>Handler_Raised exc\<close> is the exception
  \<open>exc\<close> that a Python signal handler raised.
\<close>

datatype failure = OverflowError | OSError int | Handler_Raised string

text \<open>
  \<open>PyErr_SetFromErrno(PyExc_OSError)\<close> belongs to the interpreter, not to the module.
  It reads \<open>errno\<close>; when that is \<open>EINTR\<close> it first runs the pending Python signal
  handlers (\<open>PyErr_CheckSignals\<close>), and if one of them raises, that exception stays
  and no \<open>OSError\<close> is built. In every other case it raises \<open>OSError\<close> with the
  \<open>errno\<close> it read. What the pending handlers do is a parameter of the model:
  \<open>Some exc\<close> when running them raises \<open>exc\<close>, \<open>None\<close> when nothing is pending
  or no handler raises.
\<close>

definition PyErr_SetFromErrno :: "string option \<Rightarrow> int \<Rightarrow> failure" where
  "PyErr_SetFromErrno pending errno =
     (if errno = EINTR then (case pending of Some exc \<Rightarrow> Handler_Raised exc | None \<Rightarrow> OSError errno)
      else OSError errno)"

text \<open>Format unit \<open>i\<close>: a Python integer that must fit a C \<open>int\<close>.\<close>

definition parse_i :: "int \<Rightarrow> failure + int" where
  "parse_i n = (if INT_MIN \<le> n \<and> n \<le> INT_MAX then Inr n else Inl OverflowError)"

text \<open>Format unit \<open>l\<close>: a Python integer that must fit a C \<open>long\<close>.\<close>

definition parse_l :: "int \<Rightarrow> failure + int" where
  "parse_l n = (if LONG_MIN \<le> n \<and> n \<le> LONG_MAX then Inr n else Inl OverflowError)"

subsection \<open>Binary64 arithmetic\<close>

text \<open>
  A finite double is a real number \<open>m * 2 ^ e\<close> with \<open>\<bar>m\<bar> < 2 ^ 53\<close> and
  \<open>-1074 \<le> e \<le> 971\<close>. An arithmetic operation returns the exact real result rounded
  to the nearest such number, ties to the even significand. \<open>ilog2 x\<close> is
  \<open>\<lfloor>log\<^sub>2 \<bar>x\<bar>\<rfloor>\<close>, computed on integers; \<open>quantum_exp x\<close> is the exponent of the last
  place in the binade of \<open>x\<close> (the subnormal spacing below \<open>2 ^ -1022\<close>);
  \<open>round_double\<close> rounds with an unbounded exponent range, and \<open>double_of_real\<close>
  replaces a rounded result of magnitude \<open>2 ^ 1024\<close> or more by the infinity of its
  sign. The sign of a zero is not modelled: no result of the module depends on it.
\<close>

definition ilog2 :: "real \<Rightarrow> int" where
  "ilog2 x = (if 1 \<le> \<bar>x\<bar> then bitlen \<lfloor>\<bar>x\<bar>\<rfloor> - 1 else - bitlen (\<lceil>1 / \<bar>x\<bar>\<rceil> - 1))"

definition quantum_exp :: "real \<Rightarrow> int" where
  "quantum_exp x = max (ilog2 x - 52) (- 1074)"

definition rne :: "real \<Rightarrow> int" where
  "rne y = (let f = \<lfloor>y\<rfloor>; r = y - of_int f
            in if r < 1 / 2 \<or> (r = 1 / 2 \<and> even f) then f else f + 1)"

definition round_double :: "real \<Rightarrow> real" where
  "round_double x = of_int (rne (x / 2 powi quantum_exp x)) * 2 powi quantum_exp x"

text \<open>
  A finite double is a real number that rounding leaves unchanged and that lies below
  the overflow threshold: \<open>ilog2 x < 1024\<close> says \<open>\<bar>x\<bar> < 2 ^ 1024\<close> (lemma
  \<open>is_double_iff\<close>).
\<close>

definition is_double :: "real \<Rightarrow> bool" where
  "is_double x = (round_double x = x \<and> ilog2 x < 1024)"

text \<open>A Python float or a C \<open>double\<close>: a finite double, an infinity or a NaN.\<close>

datatype double = Finite real | PosInf | NegInf | NaN

definition double_of_real :: "real \<Rightarrow> double" where
  "double_of_real x =
     (let r = round_double x
      in if ilog2 r < 1024 then Finite r else if 0 < r then PosInf else NegInf)"

text \<open>Subtraction and multiplication of doubles, as \<open>value - (int)value\<close> and \<open>1e9 * ...\<close> use them.\<close>

fun double_sub :: "double \<Rightarrow> double \<Rightarrow> double" where
  "double_sub (Finite a) (Finite b) = double_of_real (a - b)"
| "double_sub NaN y = NaN"
| "double_sub x NaN = NaN"
| "double_sub PosInf PosInf = NaN"
| "double_sub NegInf NegInf = NaN"
| "double_sub PosInf y = PosInf"
| "double_sub NegInf y = NegInf"
| "double_sub x PosInf = NegInf"
| "double_sub x NegInf = PosInf"

fun double_mul :: "double \<Rightarrow> double \<Rightarrow> double" where
  "double_mul (Finite a) (Finite b) = double_of_real (a * b)"
| "double_mul NaN y = NaN"
| "double_mul x NaN = NaN"
| "double_mul (Finite a) PosInf = (if a = 0 then NaN else if 0 < a then PosInf else NegInf)"
| "double_mul (Finite a) NegInf = (if a = 0 then NaN else if 0 < a then NegInf else PosInf)"
| "double_mul PosInf (Finite b) = (if b = 0 then NaN else if 0 < b then PosInf else NegInf)"
| "double_mul NegInf (Finite b) = (if b = 0 then NaN else if 0 < b then NegInf else PosInf)"
| "double_mul PosInf PosInf = PosInf"
| "double_mul NegInf NegInf = PosInf"
| "double_mul PosInf NegInf = NegInf"
| "double_mul NegInf PosInf = NegInf"

text \<open>
  Addition and division as \<open>(double)tv_sec + (double)tv_nsec / 1e9\<close> uses them: the
  operands are converted 64-bit integers and \<open>1e9\<close>, so the results stay far below the
  overflow threshold and are kept as real numbers.
\<close>

definition dadd :: "real \<Rightarrow> real \<Rightarrow> real" where
  "dadd a b = round_double (a + b)"

definition ddiv :: "real \<Rightarrow> real \<Rightarrow> real" where
  "ddiv a b = round_double (a / b)"

text \<open>The casts \<open>(double)n\<close> of an \<open>int\<close> or a \<open>long\<close>.\<close>

definition int_to_double :: "int \<Rightarrow> real" where
  "int_to_double n = round_double (of_int n)"

text \<open>
  The casts \<open>(int)x\<close>, \<open>(long int)x\<close> and \<open>(time_t)x\<close> discard the fractional part
  (truncation towards zero). C leaves the cast undefined when the integral part is not
  representable in the target type, or \<open>x\<close> is an infinity or a NaN; the function has
  no check before the casts, and the x86-64 conversion instruction the casts compile to
  (\<open>cvttsd2si\<close>) then delivers the minimum of the target type.
\<close>

definition c_trunc :: "real \<Rightarrow> int" where
  "c_trunc x = (if 0 \<le> x then \<lfloor>x\<rfloor> else \<lceil>x\<rceil>)"

definition double_to_int :: "double \<Rightarrow> int" where
  "double_to_int d =
     (case d of
        Finite x \<Rightarrow> if INT_MIN \<le> c_trunc x \<and> c_trunc x \<le> INT_MAX then c_trunc x else INT_MIN
      | _ \<Rightarrow> INT_MIN)"

definition double_to_long :: "double \<Rightarrow> int" where
  "double_to_long d =
     (case d of
        Finite x \<Rightarrow> if LONG_MIN \<le> c_trunc x \<and> c_trunc x \<le> LONG_MAX then c_trunc x else LONG_MIN
      | _ \<Rightarrow> LONG_MIN)"

subsection \<open>Double precision as the format defines it\<close>

text \<open>
  The format itself, independent of the rounding function above. \<open>binary64 x\<close>: \<open>x\<close>
  is a finite binary64 number. \<open>correctly_rounded x r\<close>: \<open>r\<close> is a binary64 number, no
  binary64 number is nearer to \<open>x\<close>, and where another one is equally near, \<open>r\<close> is
  the one with the even significand (an integer multiple of twice their distance).
  \<open>seconds_plus_nanoseconds sec nsec r\<close>: \<open>r\<close> is \<open>sec + nsec / 1e9\<close> computed in
  double precision, both integers converted and both operations correctly rounded.
\<close>

definition binary64 :: "real \<Rightarrow> bool" where
  "binary64 x = (\<exists>m e. x = real_of_int m * 2 powi e \<and> \<bar>m\<bar> < 2 ^ 53 \<and> - 1074 \<le> e \<and> e \<le> 971)"

definition correctly_rounded :: "real \<Rightarrow> real \<Rightarrow> bool" where
  "correctly_rounded x r =
     (binary64 r \<and>
      (\<forall>d. binary64 d \<longrightarrow>
         \<bar>r - x\<bar> \<le> \<bar>d - x\<bar> \<and>
         (d \<noteq> r \<and> \<bar>d - x\<bar> = \<bar>r - x\<bar> \<longrightarrow> (\<exists>k. r = real_of_int k * (2 * \<bar>r - d\<bar>)))))"

definition seconds_plus_nanoseconds :: "int \<Rightarrow> int \<Rightarrow> real \<Rightarrow> bool" where
  "seconds_plus_nanoseconds sec nsec r =
     (\<exists>S N Q. correctly_rounded (real_of_int sec) S \<and> correctly_rounded (real_of_int nsec) N \<and>
              correctly_rounded (N / 1000000000) Q \<and> correctly_rounded (S + Q) r)"

subsection \<open>The kernel's structures and the system calls\<close>

record timespec =
  tv_sec :: int
  tv_nsec :: int

record itimerspec =
  it_interval :: timespec
  it_value :: timespec

text \<open>
  What a system call leaves behind: its return value, \<open>errno\<close> after the call (the
  interpreter keeps \<open>errno\<close> when it takes its lock back, so this is the value
  \<open>PyErr_SetFromErrno\<close> reads), and the contents of its output buffer. The calls
  themselves are parameters of the exported functions: \<open>timerfd_create(clockid, flags)\<close>,
  \<open>timerfd_settime(fd, flags, new_value, old_value)\<close>,
  \<open>timerfd_gettime(fd, curr_value)\<close> and \<open>read(fd, buffer, 8)\<close>. The first parameter
  of every exported function is what the pending signal handlers do, for
  \<open>PyErr_SetFromErrno\<close>.
\<close>

record 'a sysret =
  sys_ret :: int
  sys_errno :: int
  sys_out :: 'a

subsection \<open>timerfd_create\<close>

definition timerfd_create ::
  "string option \<Rightarrow> (int \<Rightarrow> int \<Rightarrow> unit sysret) \<Rightarrow> int \<Rightarrow> int \<Rightarrow> failure + int" where
  "timerfd_create pending sys clockid flags =
     (case parse_i clockid of Inl e \<Rightarrow> Inl e | Inr clockid' \<Rightarrow>
     (case parse_i flags of Inl e \<Rightarrow> Inl e | Inr flags' \<Rightarrow>
        let r = sys clockid' flags' in
        if sys_ret r = - 1 then Inl (PyErr_SetFromErrno pending (sys_errno r))
        else Inr (sys_ret r)))"

subsection \<open>Conversions between durations and timespec\<close>

text \<open>
  \<open>(double)ts.tv_sec + (double)ts.tv_nsec / 1e9\<close>, the expression all three time
  functions apply to the structure the kernel returns.
\<close>

definition timespec_to_double :: "timespec \<Rightarrow> real" where
  "timespec_to_double ts =
     dadd (int_to_double (tv_sec ts)) (ddiv (int_to_double (tv_nsec ts)) 1000000000)"

text \<open>
  \<open>tv_sec = (time_t)value; tv_nsec = (long int)(1e9 * (value - (int)value));\<close>
\<close>

definition timespec_of_double :: "double \<Rightarrow> timespec" where
  "timespec_of_double value =
     \<lparr>tv_sec = double_to_long value,
      tv_nsec = double_to_long
        (double_mul (Finite 1000000000)
           (double_sub value (Finite (int_to_double (double_to_int value)))))\<rparr>"

text \<open>The block "prepare struct itimerspec" of \<open>_timerfd_settime\<close>.\<close>

definition settime_new_value :: "double \<Rightarrow> double \<Rightarrow> itimerspec" where
  "settime_new_value value interval =
     \<lparr>it_interval = timespec_of_double interval, it_value = timespec_of_double value\<rparr>"

text \<open>
  \<open>_timerfd_settime_ns\<close> declares \<open>int value; int interval;\<close> and parses both with
  format unit \<open>l\<close>, which stores a \<open>long\<close> through the address it is given. The
  variable's own four bytes receive the low half of the stored \<open>long\<close> (little-endian);
  the model reads the variable back as that half. The upper half is written past the
  variable, into whatever the compiler placed there, and the model does not follow it:
  it describes a build in which the overrun hits no live variable.
\<close>

definition long_into_int :: "int \<Rightarrow> int" where
  "long_into_int n = sint (word_of_int n :: 32 word)"

text \<open>The block "prepare struct itimerspec" of \<open>_timerfd_settime_ns\<close>.\<close>

definition settime_ns_new_value :: "int \<Rightarrow> int \<Rightarrow> itimerspec" where
  "settime_ns_new_value value interval =
     \<lparr>it_interval = \<lparr>tv_sec = 0, tv_nsec = long_into_int interval\<rparr>,
      it_value = \<lparr>tv_sec = 0, tv_nsec = long_into_int value\<rparr>\<rparr>"

subsection \<open>timerfd_settime_ns, timerfd_settime, timerfd_gettime\<close>

definition timerfd_settime_ns ::
  "string option \<Rightarrow> (int \<Rightarrow> int \<Rightarrow> itimerspec \<Rightarrow> itimerspec sysret) \<Rightarrow> int \<Rightarrow> int \<Rightarrow> int \<Rightarrow> int
     \<Rightarrow> failure + real \<times> real" where
  "timerfd_settime_ns pending sys fd flags value interval =
     (case parse_i fd of Inl e \<Rightarrow> Inl e | Inr fd' \<Rightarrow>
     (case parse_i flags of Inl e \<Rightarrow> Inl e | Inr flags' \<Rightarrow>
     (case parse_l value of Inl e \<Rightarrow> Inl e | Inr value' \<Rightarrow>
     (case parse_l interval of Inl e \<Rightarrow> Inl e | Inr interval' \<Rightarrow>
        let r = sys fd' flags' (settime_ns_new_value value' interval') in
        if sys_ret r = - 1 then Inl (PyErr_SetFromErrno pending (sys_errno r))
        else Inr (timespec_to_double (it_value (sys_out r)),
                  timespec_to_double (it_interval (sys_out r)))))))"

definition timerfd_settime ::
  "string option \<Rightarrow> (int \<Rightarrow> int \<Rightarrow> itimerspec \<Rightarrow> itimerspec sysret) \<Rightarrow> int \<Rightarrow> int
     \<Rightarrow> double \<Rightarrow> double \<Rightarrow> failure + real \<times> real" where
  "timerfd_settime pending sys fd flags value interval =
     (case parse_i fd of Inl e \<Rightarrow> Inl e | Inr fd' \<Rightarrow>
     (case parse_i flags of Inl e \<Rightarrow> Inl e | Inr flags' \<Rightarrow>
        let r = sys fd' flags' (settime_new_value value interval) in
        if sys_ret r = - 1 then Inl (PyErr_SetFromErrno pending (sys_errno r))
        else Inr (timespec_to_double (it_value (sys_out r)),
                  timespec_to_double (it_interval (sys_out r)))))"

definition timerfd_gettime ::
  "string option \<Rightarrow> (int \<Rightarrow> itimerspec sysret) \<Rightarrow> int \<Rightarrow> failure + real \<times> real" where
  "timerfd_gettime pending sys fd =
     (case parse_i fd of Inl e \<Rightarrow> Inl e | Inr fd' \<Rightarrow>
        let r = sys fd' in
        if sys_ret r = - 1 then Inl (PyErr_SetFromErrno pending (sys_errno r))
        else Inr (timespec_to_double (it_value (sys_out r)),
                  timespec_to_double (it_interval (sys_out r))))"

subsection \<open>timerfd_read\<close>

text \<open>
  \<open>result\<close> is an \<open>ssize_t\<close> and \<open>sizeof(uint64_t)\<close> a \<open>size_t\<close>: the comparison
  \<open>result != sizeof(uint64_t)\<close> is made on unsigned 64-bit values. On a short count
  the function sets \<open>errno = EIO\<close> itself before \<open>PyErr_SetFromErrno\<close>. The buffer is
  a \<open>uint64_t\<close>; \<open>PyLong_FromLong\<close> takes a \<open>long\<close>, so the buffer is converted to
  the signed type of the same width (the same 64 bits read as two's complement) before
  the Python integer is built.
\<close>

definition timerfd_read ::
  "string option \<Rightarrow> (int \<Rightarrow> nat \<Rightarrow> 64 word sysret) \<Rightarrow> int \<Rightarrow> failure + int" where
  "timerfd_read pending sys fd =
     (case parse_i fd of Inl e \<Rightarrow> Inl e | Inr fd' \<Rightarrow>
        let r = sys fd' 8 in
        if sys_ret r = - 1 then Inl (PyErr_SetFromErrno pending (sys_errno r))
        else if (word_of_int (sys_ret r) :: 64 word) \<noteq> 8 then Inl (PyErr_SetFromErrno pending EIO)
        else Inr (sint (sys_out r)))"

subsection \<open>Kernels used to exercise the functions\<close>

text \<open>A call that fails with the given \<open>errno\<close>, leaving its output buffer as it was.\<close>

definition sys_fails :: "int \<Rightarrow> 'a \<Rightarrow> 'a sysret" where
  "sys_fails e buf = \<lparr>sys_ret = - 1, sys_errno = e, sys_out = buf\<rparr>"

text \<open>A \<open>read\<close> that transfers \<open>n\<close> bytes and leaves \<open>buf\<close> in the buffer.\<close>

definition sys_read_gives :: "int \<Rightarrow> 64 word \<Rightarrow> int \<Rightarrow> nat \<Rightarrow> 64 word sysret" where
  "sys_read_gives n buf fd len = \<lparr>sys_ret = n, sys_errno = 0, sys_out = buf\<rparr>"

text \<open>A blocking \<open>read\<close> that a signal interrupts: it returns \<open>-1\<close> with \<open>EINTR\<close>.\<close>

definition sys_read_interrupted :: "int \<Rightarrow> nat \<Rightarrow> 64 word sysret" where
  "sys_read_interrupted fd len = sys_fails EINTR 0"

text \<open>A \<open>timerfd_gettime\<close> that succeeds and fills the buffer with \<open>cur\<close>.\<close>

definition sys_gettime_gives :: "itimerspec \<Rightarrow> int \<Rightarrow> itimerspec sysret" where
  "sys_gettime_gives cur fd = \<lparr>sys_ret = 0, sys_errno = 0, sys_out = cur\<rparr>"

text \<open>
  The kernel is not part of the module. For \<open>timerfd_settime\<close> it refuses, with
  \<open>EINVAL\<close>, a \<open>new_value\<close> that is not properly initialised: a nanoseconds field
  outside \<open>0 .. 999999999\<close> or a negative seconds field, in either timespec
  (\<open>timerfd_settime(2)\<close>). \<open>sys_settime_checked\<close> stands for that check on a timer that
  was disarmed before: an accepted request returns 0 and stores the zero setting as the
  old value.
\<close>

definition timespec_valid :: "timespec \<Rightarrow> bool" where
  "timespec_valid ts = (0 \<le> tv_sec ts \<and> 0 \<le> tv_nsec ts \<and> tv_nsec ts \<le> 999999999)"

definition itimerspec_valid :: "itimerspec \<Rightarrow> bool" where
  "itimerspec_valid nv = (timespec_valid (it_value nv) \<and> timespec_valid (it_interval nv))"

definition disarmed :: itimerspec where
  "disarmed = \<lparr>it_interval = \<lparr>tv_sec = 0, tv_nsec = 0\<rparr>, it_value = \<lparr>tv_sec = 0, tv_nsec = 0\<rparr>\<rparr>"

definition sys_settime_checked :: "int \<Rightarrow> int \<Rightarrow> itimerspec \<Rightarrow> itimerspec sysret" where
  "sys_settime_checked fd flags nv =
     (if itimerspec_valid nv then \<lparr>sys_ret = 0, sys_errno = 0, sys_out = disarmed\<rparr>
      else \<lparr>sys_ret = - 1, sys_errno = EINVAL, sys_out = disarmed\<rparr>)"

section \<open>Argument parsing and integer conversions\<close>

lemma parse_i_in_range: "INT_MIN \<le> n \<Longrightarrow> n \<le> INT_MAX \<Longrightarrow> parse_i n = Inr n"
  by (simp add: parse_i_def)

lemma parse_l_in_range: "LONG_MIN \<le> n \<Longrightarrow> n \<le> LONG_MAX \<Longrightarrow> parse_l n = Inr n"
  by (simp add: parse_l_def)

lemma sint_word_of_int_64:
  assumes "LONG_MIN \<le> n" and "n \<le> LONG_MAX"
  shows "sint (word_of_int n :: 64 word) = n"
  using assms by (simp add: signed_of_int signed_take_bit_int_eq_self LONG_MIN_def LONG_MAX_def)

lemma long_into_int_in_range:
  assumes "INT_MIN \<le> n" and "n \<le> INT_MAX"
  shows "long_into_int n = n"
  using assms
  by (simp add: long_into_int_def signed_of_int signed_take_bit_int_eq_self INT_MIN_def INT_MAX_def)

text \<open>
  Within the range of \<open>int\<close> the nanosecond arguments of \<open>timerfd_settime_ns\<close> reach
  the kernel unchanged, under seconds fields that are zero.
\<close>

lemma settime_ns_new_value_in_range:
  assumes "INT_MIN \<le> v" and "v \<le> INT_MAX" and "INT_MIN \<le> i" and "i \<le> INT_MAX"
  shows "settime_ns_new_value v i =
           \<lparr>it_interval = \<lparr>tv_sec = 0, tv_nsec = i\<rparr>, it_value = \<lparr>tv_sec = 0, tv_nsec = v\<rparr>\<rparr>"
  using assms by (simp add: settime_ns_new_value_def long_into_int_in_range)

section \<open>Claims about the integer paths\<close>

text \<open>
  C3. The claim: for every call of \<open>timerfd_settime_ns\<close> with integer nanosecond
  arguments, the itimerspec passed to the kernel has both seconds fields zero and
  nanosecond fields equal to the arguments. The arguments are parsed as \<open>long\<close> but
  kept in \<open>int\<close> variables: \<open>initial_ns = 4294967296\<close> is accepted by the parser and
  reaches the kernel as \<open>tv_nsec = 0\<close>.
\<close>

theorem settime_ns_keeps_low_half_only:
  "parse_l 4294967296 = Inr 4294967296 \<and>
   settime_ns_new_value 4294967296 0 =
     \<lparr>it_interval = \<lparr>tv_sec = 0, tv_nsec = 0\<rparr>, it_value = \<lparr>tv_sec = 0, tv_nsec = 0\<rparr>\<rparr>"
  by (simp add: parse_l_def LONG_MIN_def LONG_MAX_def settime_ns_new_value_def long_into_int_def)

text \<open>
  C4. The claim: a successful read of eight bytes returns the 64-bit expiration counter
  as an unsigned integer, for every counter value up to \<open>2 ^ 64 - 1\<close>. The buffer goes
  through \<open>PyLong_FromLong\<close>: the counter \<open>2 ^ 63\<close> is returned as \<open>- (2 ^ 63)\<close>.
\<close>

theorem read_returns_signed_counter:
  "timerfd_read pending (sys_read_gives 8 (2 ^ 63)) 3 = Inr (- 9223372036854775808)"
  by (simp add: timerfd_read_def sys_read_gives_def parse_i_def INT_MIN_def INT_MAX_def)

text \<open>Below \<open>2 ^ 63\<close> the returned integer is the counter.\<close>

lemma read_returns_counter_below_2_63:
  assumes "INT_MIN \<le> fd" and "fd \<le> INT_MAX" and "uint buf < 2 ^ 63"
  shows "timerfd_read pending (sys_read_gives 8 buf) fd = Inr (uint buf)"
proof -
  have "- (2 ^ 63) \<le> uint buf"
    by (rule order_trans [of _ 0]) simp_all
  then have "signed_take_bit 63 (uint buf) = uint buf"
    using assms(3) by (rule signed_take_bit_int_eq_self)
  then have "sint buf = uint buf"
    by (simp add: sint_uint)
  then show ?thesis
    using assms(1,2) by (simp add: timerfd_read_def sys_read_gives_def parse_i_in_range)
qed

text \<open>
  C5. When \<open>read\<close> succeeds (its return value is not \<open>-1\<close>) with a byte count other
  than 8, \<open>timerfd_read\<close> raises \<open>OSError\<close> with \<open>EIO\<close>, whatever \<open>errno\<close> the
  call left and whatever signal handlers are pending, and returns no count.
\<close>

theorem read_short_count_raises_EIO:
  assumes "INT_MIN \<le> fd" and "fd \<le> INT_MAX"
    and "LONG_MIN \<le> sys_ret (sys fd 8)" and "sys_ret (sys fd 8) \<le> LONG_MAX"
    and "sys_ret (sys fd 8) \<noteq> - 1" and "sys_ret (sys fd 8) \<noteq> 8"
  shows "timerfd_read pending sys fd = Inl (OSError EIO)"
proof -
  let ?n = "sys_ret (sys fd 8)"
  have "(word_of_int ?n :: 64 word) \<noteq> 8"
  proof
    assume "(word_of_int ?n :: 64 word) = 8"
    then have "sint (word_of_int ?n :: 64 word) = sint (8 :: 64 word)"
      by simp
    then show False
      using sint_word_of_int_64 [OF assms(3,4)] assms(6) by simp
  qed
  moreover have "PyErr_SetFromErrno pending EIO = OSError EIO"
    by (simp add: PyErr_SetFromErrno_def EIO_def EINTR_def)
  ultimately show ?thesis
    using assms(1,2,5) by (simp add: timerfd_read_def parse_i_in_range)
qed

theorem read_short_count_raises_EIO_witness:
  "sys_ret (sys_read_gives 3 0 7 8) = 3 \<and> sys_errno (sys_read_gives 3 0 7 8) \<noteq> EIO \<and>
   timerfd_read (Some ''KeyboardInterrupt'') (sys_read_gives 3 0) 7 = Inl (OSError EIO)"
  using read_short_count_raises_EIO [of 7 "sys_read_gives 3 0" "Some ''KeyboardInterrupt''"]
  by (simp add: sys_read_gives_def INT_MIN_def INT_MAX_def LONG_MIN_def LONG_MAX_def EIO_def)

text \<open>
  C6, as amended. In each of the five exported functions, a system call that returns
  \<open>-1\<close> makes the function raise and return no value, whatever the call left in its
  output buffer. The exception is \<open>OSError\<close> with the \<open>errno\<close> the call left, unless
  that \<open>errno\<close> is \<open>EINTR\<close> and a pending signal handler raises: then it is the
  handler's exception. The range hypotheses say that the arguments were parsed, so that
  the system call is reached; the durations of \<open>timerfd_settime\<close> are arbitrary.
\<close>

theorem failed_syscall_raises_OSError_or_handler_exception:
  "(INT_MIN \<le> clockid \<and> clockid \<le> INT_MAX \<and> INT_MIN \<le> flags \<and> flags \<le> INT_MAX \<and>
      sys_ret (sc clockid flags) = - 1 \<longrightarrow>
    (sys_errno (sc clockid flags) \<noteq> EINTR \<or> pending = None \<longrightarrow>
       timerfd_create pending sc clockid flags = Inl (OSError (sys_errno (sc clockid flags)))) \<and>
    (sys_errno (sc clockid flags) = EINTR \<and> pending = Some exc \<longrightarrow>
       timerfd_create pending sc clockid flags = Inl (Handler_Raised exc))) \<and>
   (INT_MIN \<le> fd \<and> fd \<le> INT_MAX \<and> INT_MIN \<le> flags \<and> flags \<le> INT_MAX \<and>
      sys_ret (ss fd flags (settime_new_value initial interval)) = - 1 \<longrightarrow>
    (sys_errno (ss fd flags (settime_new_value initial interval)) \<noteq> EINTR \<or> pending = None \<longrightarrow>
       timerfd_settime pending ss fd flags initial interval =
         Inl (OSError (sys_errno (ss fd flags (settime_new_value initial interval))))) \<and>
    (sys_errno (ss fd flags (settime_new_value initial interval)) = EINTR \<and> pending = Some exc \<longrightarrow>
       timerfd_settime pending ss fd flags initial interval = Inl (Handler_Raised exc))) \<and>
   (INT_MIN \<le> fd \<and> fd \<le> INT_MAX \<and> INT_MIN \<le> flags \<and> flags \<le> INT_MAX \<and>
      LONG_MIN \<le> initial_ns \<and> initial_ns \<le> LONG_MAX \<and>
      LONG_MIN \<le> interval_ns \<and> interval_ns \<le> LONG_MAX \<and>
      sys_ret (ss fd flags (settime_ns_new_value initial_ns interval_ns)) = - 1 \<longrightarrow>
    (sys_errno (ss fd flags (settime_ns_new_value initial_ns interval_ns)) \<noteq> EINTR \<or>
       pending = None \<longrightarrow>
       timerfd_settime_ns pending ss fd flags initial_ns interval_ns =
         Inl (OSError (sys_errno (ss fd flags (settime_ns_new_value initial_ns interval_ns))))) \<and>
    (sys_errno (ss fd flags (settime_ns_new_value initial_ns interval_ns)) = EINTR \<and>
       pending = Some exc \<longrightarrow>
       timerfd_settime_ns pending ss fd flags initial_ns interval_ns = Inl (Handler_Raised exc))) \<and>
   (INT_MIN \<le> fd \<and> fd \<le> INT_MAX \<and> sys_ret (sg fd) = - 1 \<longrightarrow>
    (sys_errno (sg fd) \<noteq> EINTR \<or> pending = None \<longrightarrow>
       timerfd_gettime pending sg fd = Inl (OSError (sys_errno (sg fd)))) \<and>
    (sys_errno (sg fd) = EINTR \<and> pending = Some exc \<longrightarrow>
       timerfd_gettime pending sg fd = Inl (Handler_Raised exc))) \<and>
   (INT_MIN \<le> fd \<and> fd \<le> INT_MAX \<and> sys_ret (sr fd 8) = - 1 \<longrightarrow>
    (sys_errno (sr fd 8) \<noteq> EINTR \<or> pending = None \<longrightarrow>
       timerfd_read pending sr fd = Inl (OSError (sys_errno (sr fd 8)))) \<and>
    (sys_errno (sr fd 8) = EINTR \<and> pending = Some exc \<longrightarrow>
       timerfd_read pending sr fd = Inl (Handler_Raised exc)))"
proof -
  have os: "PyErr_SetFromErrno p e = OSError e" if "e \<noteq> EINTR \<or> p = None" for e p
    using that by (auto simp: PyErr_SetFromErrno_def)
  have hr: "PyErr_SetFromErrno (Some exc) EINTR = Handler_Raised exc"
    by (simp add: PyErr_SetFromErrno_def)
  have c: "timerfd_create p sc clockid flags =
      Inl (PyErr_SetFromErrno p (sys_errno (sc clockid flags)))"
    if "INT_MIN \<le> clockid \<and> clockid \<le> INT_MAX \<and> INT_MIN \<le> flags \<and> flags \<le> INT_MAX \<and>
      sys_ret (sc clockid flags) = - 1" for p
    using that by (simp add: timerfd_create_def parse_i_in_range)
  have s: "timerfd_settime p ss fd flags initial interval =
      Inl (PyErr_SetFromErrno p (sys_errno (ss fd flags (settime_new_value initial interval))))"
    if "INT_MIN \<le> fd \<and> fd \<le> INT_MAX \<and> INT_MIN \<le> flags \<and> flags \<le> INT_MAX \<and>
      sys_ret (ss fd flags (settime_new_value initial interval)) = - 1" for p
    using that by (simp add: timerfd_settime_def parse_i_in_range)
  have n: "timerfd_settime_ns p ss fd flags initial_ns interval_ns =
      Inl (PyErr_SetFromErrno p
             (sys_errno (ss fd flags (settime_ns_new_value initial_ns interval_ns))))"
    if "INT_MIN \<le> fd \<and> fd \<le> INT_MAX \<and> INT_MIN \<le> flags \<and> flags \<le> INT_MAX \<and>
      LONG_MIN \<le> initial_ns \<and> initial_ns \<le> LONG_MAX \<and>
      LONG_MIN \<le> interval_ns \<and> interval_ns \<le> LONG_MAX \<and>
      sys_ret (ss fd flags (settime_ns_new_value initial_ns interval_ns)) = - 1" for p
    using that by (simp add: timerfd_settime_ns_def parse_i_in_range parse_l_in_range)
  have g: "timerfd_gettime p sg fd = Inl (PyErr_SetFromErrno p (sys_errno (sg fd)))"
    if "INT_MIN \<le> fd \<and> fd \<le> INT_MAX \<and> sys_ret (sg fd) = - 1" for p
    using that by (simp add: timerfd_gettime_def parse_i_in_range)
  have r: "timerfd_read p sr fd = Inl (PyErr_SetFromErrno p (sys_errno (sr fd 8)))"
    if "INT_MIN \<le> fd \<and> fd \<le> INT_MAX \<and> sys_ret (sr fd 8) = - 1" for p
    using that by (simp add: timerfd_read_def parse_i_in_range)
  show ?thesis
    by (intro conjI impI) (simp_all add: c s n g r os hr)
qed

theorem failed_syscall_raises_OSError_or_handler_exception_witness:
  "timerfd_create (Some ''KeyboardInterrupt'') (\<lambda>clockid flags. sys_fails 22 ()) 7 0 =
     Inl (OSError 22) \<and>
   timerfd_settime (Some ''KeyboardInterrupt'') (\<lambda>fd flags. sys_fails 9) 3 0 PosInf NaN =
     Inl (OSError 9) \<and>
   timerfd_settime_ns (Some ''KeyboardInterrupt'') (\<lambda>fd flags. sys_fails 9) 3 0 1000 0 =
     Inl (OSError 9) \<and>
   timerfd_gettime (Some ''KeyboardInterrupt'')
     (\<lambda>fd. sys_fails 9 \<lparr>it_interval = \<lparr>tv_sec = 5, tv_nsec = 5\<rparr>,
                          it_value = \<lparr>tv_sec = 5, tv_nsec = 5\<rparr>\<rparr>) 3 =
     Inl (OSError 9) \<and>
   timerfd_read (Some ''KeyboardInterrupt'') (\<lambda>fd n. sys_fails 4 77) 3 =
     Inl (Handler_Raised ''KeyboardInterrupt'')"
  using failed_syscall_raises_OSError_or_handler_exception
      [where clockid = 7 and flags = 0 and fd = 3
        and pending = "Some ''KeyboardInterrupt''" and exc = "''KeyboardInterrupt''"
        and initial = PosInf and interval = NaN
        and initial_ns = 1000 and interval_ns = 0
        and sc = "\<lambda>clockid flags. sys_fails 22 ()" and ss = "\<lambda>fd flags. sys_fails 9"
        and sg = "\<lambda>fd. sys_fails 9 \<lparr>it_interval = \<lparr>tv_sec = 5, tv_nsec = 5\<rparr>,
                                     it_value = \<lparr>tv_sec = 5, tv_nsec = 5\<rparr>\<rparr>"
        and sr = "\<lambda>fd n. sys_fails 4 77"]
  by (simp add: sys_fails_def INT_MIN_def INT_MAX_def LONG_MIN_def LONG_MAX_def EINTR_def)

text \<open>
  C6 as stated, an OS error carrying the error code of the failing call in every case,
  fails. A blocking \<open>read\<close> that a signal interrupts returns \<open>-1\<close> with \<open>EINTR\<close>;
  \<open>PyErr_SetFromErrno\<close> then runs the Python handler of the signal, and when that
  handler raises (the default handler of \<open>SIGINT\<close> raises \<open>KeyboardInterrupt\<close>) the
  caller sees the handler's exception and no \<open>OSError\<close>, so no error code.
\<close>

theorem interrupted_read_raises_handler_exception:
  "sys_ret (sys_read_interrupted 3 8) = - 1 \<and> sys_errno (sys_read_interrupted 3 8) = EINTR \<and>
   timerfd_read (Some ''KeyboardInterrupt'') sys_read_interrupted 3 =
     Inl (Handler_Raised ''KeyboardInterrupt'') \<and>
   timerfd_read (Some ''KeyboardInterrupt'') sys_read_interrupted 3 \<noteq> Inl (OSError EINTR)"
  by (simp add: timerfd_read_def sys_read_interrupted_def sys_fails_def parse_i_def
      INT_MIN_def INT_MAX_def PyErr_SetFromErrno_def)

section \<open>Binary64 rounding\<close>

subsection \<open>The binade of a real number\<close>

lemma two_powi_pos: "0 < (2::real) powi k"
  by simp

lemma two_powi_le_abs_nonzero:
  assumes "2 powi k \<le> \<bar>x::real\<bar>"
  shows "x \<noteq> 0"
proof
  assume "x = 0"
  with assms have "2 powi k \<le> (0::real)" by simp
  with two_powi_pos [of k] show False by linarith
qed

lemma ilog2_lower:
  assumes "x \<noteq> 0"
  shows "2 powi ilog2 x \<le> \<bar>x\<bar>"
proof (cases "1 \<le> \<bar>x\<bar>")
  case True
  define n where "n = \<lfloor>\<bar>x\<bar>\<rfloor>"
  have n: "0 < n" using True by (simp add: n_def)
  have k: "0 \<le> bitlen n - 1" using n by (simp add: bitlen_alt_def)
  have "(2::int) ^ nat (bitlen n - 1) \<le> n" using bitlen_bounds [OF n] by simp
  then have "real_of_int (2 ^ nat (bitlen n - 1)) \<le> real_of_int n" by (simp only: of_int_le_iff)
  also have "\<dots> \<le> \<bar>x\<bar>" by (simp add: n_def)
  finally show ?thesis using True k by (simp add: ilog2_def n_def power_int_nonneg_exp)
next
  case False
  define m where "m = \<lceil>1 / \<bar>x\<bar>\<rceil> - 1"
  have y: "1 < 1 / \<bar>x\<bar>" using False assms by simp
  then have m: "0 < m" unfolding m_def by linarith
  have "m < 2 ^ nat (bitlen m)" using bitlen_bounds [OF m] by simp
  then have "\<lceil>1 / \<bar>x\<bar>\<rceil> \<le> 2 ^ nat (bitlen m)" by (simp add: m_def)
  then have "1 / \<bar>x\<bar> \<le> real_of_int (2 ^ nat (bitlen m))" by (simp only: ceiling_le_iff)
  then have "1 / \<bar>x\<bar> \<le> 2 ^ nat (bitlen m)" by simp
  then have "1 / 2 ^ nat (bitlen m) \<le> \<bar>x\<bar>" using assms by (simp add: field_simps)
  moreover have "2 powi (- bitlen m) = (1::real) / 2 ^ nat (bitlen m)"
    using bitlen_nonneg [of m] by (simp add: power_int_minus_divide power_int_nonneg_exp)
  ultimately show ?thesis using False by (simp add: ilog2_def m_def)
qed

lemma ilog2_upper:
  assumes "x \<noteq> 0"
  shows "\<bar>x\<bar> < 2 powi (ilog2 x + 1)"
proof (cases "1 \<le> \<bar>x\<bar>")
  case True
  define n where "n = \<lfloor>\<bar>x\<bar>\<rfloor>"
  have n: "0 < n" using True by (simp add: n_def)
  have k: "0 \<le> bitlen n" by (rule bitlen_nonneg)
  have "n < 2 ^ nat (bitlen n)" using bitlen_bounds [OF n] by simp
  then have "n + 1 \<le> 2 ^ nat (bitlen n)" by simp
  then have "real_of_int (n + 1) \<le> real_of_int (2 ^ nat (bitlen n))" by (simp only: of_int_le_iff)
  moreover have "\<bar>x\<bar> < real_of_int (n + 1)" unfolding n_def by linarith
  ultimately have "\<bar>x\<bar> < 2 ^ nat (bitlen n)" by simp
  then show ?thesis using True k by (simp add: ilog2_def n_def power_int_nonneg_exp)
next
  case False
  define m where "m = \<lceil>1 / \<bar>x\<bar>\<rceil> - 1"
  have y: "1 < 1 / \<bar>x\<bar>" using False assms by simp
  then have m: "0 < m" unfolding m_def by linarith
  then have b: "1 \<le> bitlen m" by (simp add: bitlen_alt_def)
  have "(2::int) ^ nat (bitlen m - 1) \<le> m" using bitlen_bounds [OF m] by simp
  then have "real_of_int (2 ^ nat (bitlen m - 1)) \<le> real_of_int m" by (simp only: of_int_le_iff)
  then have "(2::real) ^ nat (bitlen m - 1) \<le> real_of_int m" by simp
  moreover have "real_of_int m < 1 / \<bar>x\<bar>" unfolding m_def by linarith
  ultimately have "2 ^ nat (bitlen m - 1) < 1 / \<bar>x\<bar>" by linarith
  then have "\<bar>x\<bar> < 1 / 2 ^ nat (bitlen m - 1)" using assms by (simp add: field_simps)
  moreover have "2 powi (- bitlen m + 1) = (1::real) / 2 ^ nat (bitlen m - 1)"
  proof -
    have "- bitlen m + 1 = - (bitlen m - 1)" by simp
    then show ?thesis using b by (simp only: power_int_minus_divide power_int_nonneg_exp)
  qed
  ultimately show ?thesis using False by (simp add: ilog2_def m_def)
qed

lemma ilog2_less:
  assumes "x \<noteq> 0" and "\<bar>x\<bar> < 2 powi k"
  shows "ilog2 x < k"
proof (rule ccontr)
  assume "\<not> ilog2 x < k"
  then have "(2::real) powi k \<le> 2 powi ilog2 x" by (simp add: power_int_increasing)
  then show False using ilog2_lower [OF assms(1)] assms(2) by linarith
qed

lemma ilog2_ge:
  assumes "2 powi k \<le> \<bar>x\<bar>"
  shows "k \<le> ilog2 x"
proof (rule ccontr)
  assume "\<not> k \<le> ilog2 x"
  then have "(2::real) powi (ilog2 x + 1) \<le> 2 powi k" by (simp add: power_int_increasing)
  moreover have "x \<noteq> 0" using assms by (rule two_powi_le_abs_nonzero)
  ultimately show False using ilog2_upper [of x] assms by linarith
qed

lemma ilog2_eq:
  assumes "2 powi k \<le> \<bar>x\<bar>" and "\<bar>x\<bar> < 2 powi (k + 1)"
  shows "ilog2 x = k"
proof -
  have "x \<noteq> 0" using assms(1) by (rule two_powi_le_abs_nonzero)
  then have "ilog2 x < k + 1" using assms(2) by (rule ilog2_less)
  moreover have "k \<le> ilog2 x" using assms(1) by (rule ilog2_ge)
  ultimately show ?thesis by simp
qed

lemma ilog2_mono:
  assumes "x \<noteq> 0" and "\<bar>x\<bar> \<le> \<bar>y\<bar>"
  shows "ilog2 x \<le> ilog2 y"
proof -
  have "2 powi ilog2 x \<le> \<bar>y\<bar>" using ilog2_lower [OF assms(1)] assms(2) by linarith
  then show ?thesis by (rule ilog2_ge)
qed

lemma ilog2_minus: "ilog2 (- x) = ilog2 x"
  by (simp add: ilog2_def)

lemma ilog2_less_iff:
  assumes "0 < k"
  shows "ilog2 x < k \<longleftrightarrow> \<bar>x\<bar> < 2 powi k"
proof (cases "x = 0")
  case True
  have "ilog2 0 = 0" by (simp add: ilog2_def bitlen_alt_def)
  then show ?thesis using True assms by simp
next
  case False
  show ?thesis
  proof
    assume "ilog2 x < k"
    then have "(2::real) powi (ilog2 x + 1) \<le> 2 powi k" by (simp add: power_int_increasing)
    then show "\<bar>x\<bar> < 2 powi k" using ilog2_upper [OF False] by linarith
  next
    assume "\<bar>x\<bar> < 2 powi k"
    with False show "ilog2 x < k" by (rule ilog2_less)
  qed
qed

lemma is_double_iff: "is_double x \<longleftrightarrow> round_double x = x \<and> \<bar>x\<bar> < 2 ^ 1024"
  using ilog2_less_iff [of 1024 x] by (simp add: is_double_def)

subsection \<open>Rounding to the nearest integer, ties to even\<close>

lemma rne_of_int: "rne (of_int k) = k"
  by (simp add: rne_def)

lemma rne_floor_le: "\<lfloor>y\<rfloor> \<le> rne y"
  by (simp add: rne_def Let_def)

lemma rne_le_floor_plus: "rne y \<le> \<lfloor>y\<rfloor> + 1"
  by (simp add: rne_def Let_def)

lemma rne_mono:
  assumes "a \<le> b"
  shows "rne a \<le> rne b"
proof (cases "\<lfloor>a\<rfloor> = \<lfloor>b\<rfloor>")
  case True
  then show ?thesis using assms by (auto simp: rne_def Let_def)
next
  case False
  then have "\<lfloor>a\<rfloor> + 1 \<le> \<lfloor>b\<rfloor>" using floor_mono [OF assms] by linarith
  then show ?thesis using rne_le_floor_plus [of a] rne_floor_le [of b] by linarith
qed

lemma rne_error: "\<bar>real_of_int (rne y) - y\<bar> \<le> 1 / 2"
proof -
  have "real_of_int \<lfloor>y\<rfloor> \<le> y" "y < real_of_int \<lfloor>y\<rfloor> + 1" by linarith+
  then show ?thesis by (auto simp: rne_def Let_def)
qed

lemma rne_nearest: "\<bar>real_of_int (rne y) - y\<bar> \<le> \<bar>real_of_int k - y\<bar>"
proof (cases "k \<le> \<lfloor>y\<rfloor>")
  case True
  then have "real_of_int k \<le> real_of_int \<lfloor>y\<rfloor>" by (simp only: of_int_le_iff)
  moreover have "real_of_int \<lfloor>y\<rfloor> \<le> y" "y < real_of_int \<lfloor>y\<rfloor> + 1" by linarith+
  ultimately show ?thesis by (auto simp: rne_def Let_def)
next
  case False
  then have "\<lfloor>y\<rfloor> + 1 \<le> k" by simp
  then have "real_of_int (\<lfloor>y\<rfloor> + 1) \<le> real_of_int k" by (simp only: of_int_le_iff)
  moreover have "real_of_int \<lfloor>y\<rfloor> \<le> y" "y < real_of_int \<lfloor>y\<rfloor> + 1" by linarith+
  ultimately show ?thesis by (auto simp: rne_def Let_def)
qed

lemma rne_minus: "rne (- y) = - rne y"
proof (cases "y \<in> \<int>")
  case True
  then obtain k where "y = of_int k" by (auto elim: Ints_cases)
  then have "- y = of_int (- k)" by simp
  then show ?thesis using rne_of_int [of "- k"] rne_of_int [of k] \<open>y = of_int k\<close> by simp
next
  case False
  then have ne: "y \<noteq> real_of_int \<lfloor>y\<rfloor>"
    by (metis Ints_of_int)
  then have f: "\<lfloor>- y\<rfloor> = - \<lfloor>y\<rfloor> - 1"
    by (simp add: floor_minus ceiling_altdef)
  have "real_of_int \<lfloor>y\<rfloor> \<le> y" "y < real_of_int \<lfloor>y\<rfloor> + 1" by linarith+
  with ne show ?thesis unfolding rne_def Let_def f by auto
qed

subsection \<open>Rounding to the nearest double\<close>

lemma quantum_exp_minus: "quantum_exp (- x) = quantum_exp x"
  by (simp add: quantum_exp_def ilog2_minus)

lemma round_double_minus: "round_double (- x) = - round_double x"
  by (simp add: round_double_def quantum_exp_minus rne_minus)

lemma round_double_0: "round_double 0 = 0"
  by (simp add: round_double_def rne_def)

lemma quantum_exp_ge: "- 1074 \<le> quantum_exp x"
  by (simp add: quantum_exp_def)

text \<open>A multiple of the quantum is left unchanged.\<close>

lemma round_double_multiple:
  assumes "x = real_of_int m * 2 powi e" and "quantum_exp x \<le> e"
  shows "round_double x = x"
proof -
  define q where "q = quantum_exp x"
  have "x / 2 powi q = real_of_int m * 2 powi (e - q)"
    by (simp add: assms(1) power_int_diff)
  also have "\<dots> = real_of_int (m * 2 ^ nat (e - q))"
    using assms(2) by (simp add: q_def power_int_nonneg_exp)
  finally have "rne (x / 2 powi q) = m * 2 ^ nat (e - q)"
    by (simp only: rne_of_int)
  then have "round_double x = real_of_int (m * 2 ^ nat (e - q)) * 2 powi q"
    by (simp add: round_double_def q_def)
  also have "\<dots> = real_of_int m * (2 powi (e - q) * 2 powi q)"
    using assms(2) by (simp add: q_def power_int_nonneg_exp)
  also have "\<dots> = real_of_int m * 2 powi e"
    by (simp flip: power_int_add)
  finally show ?thesis by (simp add: assms(1))
qed

lemma round_double_fixI:
  assumes "x = real_of_int m * 2 powi e" and "\<bar>m\<bar> < 2 ^ 53" and "- 1074 \<le> e"
  shows "round_double x = x"
proof (cases "x = 0")
  case True
  then show ?thesis by (simp add: round_double_0)
next
  case False
  have "\<bar>real_of_int m\<bar> < 2 ^ 53"
    using assms(2) by (metis of_int_abs of_int_less_numeral_power_cancel_iff)
  then have "\<bar>x\<bar> < 2 ^ 53 * 2 powi e"
    by (simp add: assms(1) abs_mult)
  also have "\<dots> = 2 powi (53 + e)"
    by (simp add: power_int_add)
  finally have "ilog2 x < 53 + e" by (rule ilog2_less [OF False])
  then have "quantum_exp x \<le> e" using assms(3) by (simp add: quantum_exp_def)
  with assms(1) show ?thesis by (rule round_double_multiple)
qed

lemma int_to_double_exact:
  assumes "\<bar>n\<bar> < 2 ^ 53"
  shows "int_to_double n = real_of_int n"
  unfolding int_to_double_def
  by (rule round_double_fixI [of _ n 0]) (use assms in simp_all)

lemma two_powi_quot:
  assumes "q \<le> e"
  shows "(2::real) powi e / 2 powi q = 2 ^ nat (e - q)"
proof -
  have "(2::real) powi e / 2 powi q = 2 powi (e - q)" by (simp add: power_int_diff)
  also have "\<dots> = 2 ^ nat (e - q)" using assms by (simp add: power_int_nonneg_exp)
  finally show ?thesis .
qed

lemma round_double_le_multiple:
  assumes "x \<le> B" and "B = real_of_int m * 2 powi e" and "quantum_exp x \<le> e"
  shows "round_double x \<le> B"
proof -
  define q where "q = quantum_exp x"
  have "q \<le> e" using assms(3) by (simp add: q_def)
  have "B / 2 powi q = real_of_int m * (2 powi e / 2 powi q)" by (simp add: assms(2))
  also have "\<dots> = real_of_int m * 2 ^ nat (e - q)"
    by (simp only: two_powi_quot [OF \<open>q \<le> e\<close>])
  finally have B: "B / 2 powi q = real_of_int (m * 2 ^ nat (e - q))" by simp
  have "x / 2 powi q \<le> B / 2 powi q"
    using assms(1) by (simp add: divide_right_mono)
  then have "rne (x / 2 powi q) \<le> rne (B / 2 powi q)" by (rule rne_mono)
  then have "rne (x / 2 powi q) \<le> m * 2 ^ nat (e - q)" by (simp only: B rne_of_int)
  then have "real_of_int (rne (x / 2 powi q)) \<le> real_of_int (m * 2 ^ nat (e - q))"
    by (simp only: of_int_le_iff)
  then have "real_of_int (rne (x / 2 powi q)) * 2 powi q \<le> B / 2 powi q * 2 powi q"
    by (simp only: B mult_le_cancel_right_pos two_powi_pos)
  then show ?thesis by (simp add: round_double_def q_def)
qed

lemma round_double_ge_multiple:
  assumes "B \<le> x" and "B = real_of_int m * 2 powi e" and "quantum_exp x \<le> e"
  shows "B \<le> round_double x"
proof -
  have "round_double (- x) \<le> - B"
    by (rule round_double_le_multiple [of _ _ "- m" e])
      (use assms in \<open>simp_all add: quantum_exp_minus\<close>)
  then show ?thesis by (simp add: round_double_minus)
qed

lemma round_double_nonneg: "0 \<le> x \<Longrightarrow> 0 \<le> round_double x"
  using round_double_ge_multiple [of 0 x 0 "quantum_exp x"] by simp

lemma round_double_nonpos: "x \<le> 0 \<Longrightarrow> round_double x \<le> 0"
  using round_double_le_multiple [of x 0 0 "quantum_exp x"] by simp

lemma round_double_mono_pos:
  assumes "0 < x" and "x \<le> y"
  shows "round_double x \<le> round_double y"
proof (cases "quantum_exp x = quantum_exp y")
  case True
  define q where "q = quantum_exp y"
  have "x / 2 powi q \<le> y / 2 powi q" using assms(2) by (simp add: divide_right_mono)
  then have "rne (x / 2 powi q) \<le> rne (y / 2 powi q)" by (rule rne_mono)
  then have "real_of_int (rne (x / 2 powi q)) \<le> real_of_int (rne (y / 2 powi q))"
    by (simp only: of_int_le_iff)
  then show ?thesis
    by (simp add: round_double_def True q_def)
next
  case False
  have xy: "x \<noteq> 0" "\<bar>x\<bar> \<le> \<bar>y\<bar>" "y \<noteq> 0" using assms by simp_all
  have le: "ilog2 x \<le> ilog2 y" using xy(1,2) by (rule ilog2_mono)
  with False have lt: "ilog2 x < ilog2 y" by (auto simp: quantum_exp_def)
  with False have qy: "quantum_exp y = ilog2 y - 52" by (auto simp: quantum_exp_def)
  have qx: "quantum_exp x \<le> ilog2 y" using lt qy by (simp add: quantum_exp_def)
  define B :: real where "B = 2 powi ilog2 y"
  have B: "B = real_of_int 1 * 2 powi ilog2 y" by (simp add: B_def)
  have "\<bar>x\<bar> < 2 powi (ilog2 x + 1)" using xy(1) by (rule ilog2_upper)
  also have "\<dots> \<le> B" unfolding B_def using lt by (simp add: power_int_increasing)
  finally have "x \<le> B" using assms(1) by simp
  then have "round_double x \<le> B" using B qx by (rule round_double_le_multiple)
  moreover have "B \<le> y" using ilog2_lower [OF xy(3)] assms by (simp add: B_def)
  then have "B \<le> round_double y" using B by (rule round_double_ge_multiple) (simp add: qy)
  ultimately show ?thesis by simp
qed

lemma round_double_mono:
  assumes "x \<le> y"
  shows "round_double x \<le> round_double y"
proof -
  consider "0 < x" | "x \<le> 0" "0 \<le> y" | "y < 0" by linarith
  then show ?thesis
  proof cases
    case 1
    then show ?thesis using assms by (rule round_double_mono_pos)
  next
    case 2
    then show ?thesis using round_double_nonpos [of x] round_double_nonneg [of y] by simp
  next
    case 3
    then have "round_double (- y) \<le> round_double (- x)"
      using assms by (intro round_double_mono_pos) simp_all
    then show ?thesis by (simp add: round_double_minus)
  qed
qed

text \<open>The shape of a double: an integer below \<open>2 ^ 53\<close> times its quantum.\<close>

lemma double_shape:
  assumes "round_double x = x"
  obtains m where "x = real_of_int m * 2 powi quantum_exp x" and "\<bar>m\<bar> < 2 ^ 53"
proof -
  define q where "q = quantum_exp x"
  define m where "m = rne (x / 2 powi q)"
  have x: "x = real_of_int m * 2 powi q"
    using assms by (simp add: round_double_def m_def q_def)
  have "\<bar>m\<bar> < 2 ^ 53"
  proof (cases "x = 0")
    case True
    then have "m = 0" using x by simp
    then show ?thesis by simp
  next
    case False
    have "\<bar>real_of_int m\<bar> * 2 powi q = \<bar>x\<bar>" by (simp add: x abs_mult)
    also have "\<dots> < 2 powi (ilog2 x + 1)" using False by (rule ilog2_upper)
    also have "\<dots> \<le> 2 powi (q + 53)"
      by (rule power_int_increasing) (simp_all add: q_def quantum_exp_def)
    also have "\<dots> = 2 ^ 53 * 2 powi q" by (simp add: power_int_add)
    finally have "\<bar>real_of_int m\<bar> < 2 ^ 53" by simp
    then show ?thesis by (metis of_int_abs of_int_less_numeral_power_cancel_iff)
  qed
  with x show ?thesis using that by (simp add: q_def)
qed

lemma abs_minus_c_trunc_le: "\<bar>x - real_of_int (c_trunc x)\<bar> \<le> \<bar>x\<bar>"
proof (cases "0 \<le> x")
  case True
  then have "0 \<le> \<lfloor>x\<rfloor>" by simp
  then have "0 \<le> real_of_int \<lfloor>x\<rfloor>" by (simp only: of_int_0_le_iff)
  moreover have "real_of_int \<lfloor>x\<rfloor> \<le> x" by linarith
  ultimately show ?thesis using True by (simp add: c_trunc_def)
next
  case False
  then have "\<lceil>x\<rceil> \<le> 0" by (simp add: ceiling_le_iff)
  then have "real_of_int \<lceil>x\<rceil> \<le> 0" by (simp only: of_int_le_0_iff)
  moreover have "x \<le> real_of_int \<lceil>x\<rceil>" by linarith
  ultimately show ?thesis using False by (simp add: c_trunc_def)
qed

lemma abs_minus_c_trunc_less_1: "\<bar>x - real_of_int (c_trunc x)\<bar> < 1"
  unfolding c_trunc_def by (cases "0 \<le> x") (simp_all, linarith+)

text \<open>Subtracting the integral part of a double is exact.\<close>

lemma double_minus_c_trunc_exact:
  assumes "round_double x = x"
  shows "round_double (x - real_of_int (c_trunc x)) = x - real_of_int (c_trunc x)"
proof -
  define q where "q = quantum_exp x"
  define t where "t = c_trunc x"
  obtain m where x: "x = real_of_int m * 2 powi q" and m: "\<bar>m\<bar> < 2 ^ 53"
    using assms unfolding q_def by (rule double_shape)
  show ?thesis
  proof (cases "0 \<le> q")
    case True
    then have "x = real_of_int (m * 2 ^ nat q)" by (simp add: x power_int_nonneg_exp)
    then have "x - real_of_int (c_trunc x) = 0" by (simp add: c_trunc_def)
    then show ?thesis by (simp add: round_double_0)
  next
    case False
    define m' where "m' = m - t * 2 ^ nat (- q)"
    have "(2::real) ^ nat (- q) = 2 powi (- q)"
      using False by (simp add: power_int_nonneg_exp)
    then have one: "2 powi q * (2::real) ^ nat (- q) = 1"
      by (simp add: power_int_minus)
    have "real_of_int m' * 2 powi q = x - real_of_int t * (2 powi q * 2 ^ nat (- q))"
      by (simp add: m'_def x algebra_simps)
    then have d: "x - real_of_int t = real_of_int m' * 2 powi q" by (simp add: one)
    have "\<bar>real_of_int m'\<bar> * 2 powi q = \<bar>x - real_of_int t\<bar>" by (simp add: d abs_mult)
    also have "\<dots> \<le> \<bar>x\<bar>" unfolding t_def by (rule abs_minus_c_trunc_le)
    also have "\<dots> = \<bar>real_of_int m\<bar> * 2 powi q" by (simp add: x abs_mult)
    finally have "\<bar>real_of_int m'\<bar> \<le> \<bar>real_of_int m\<bar>" by simp
    then have "\<bar>m'\<bar> \<le> \<bar>m\<bar>" by (metis of_int_abs of_int_le_iff)
    with m have "\<bar>m'\<bar> < 2 ^ 53" by simp
    with d have "round_double (x - real_of_int t) = x - real_of_int t"
      by (rule round_double_fixI) (simp add: q_def quantum_exp_ge)
    then show ?thesis by (simp add: t_def)
  qed
qed

text \<open>The largest double below one is \<open>1 - 2 ^ -53\<close>.\<close>

lemma double_below_one:
  assumes "round_double f = f" and "0 \<le> f" and "f < 1"
  shows "f \<le> 1 - 1 / 2 ^ 53"
proof (cases "f < 1 / 2")
  case True
  then show ?thesis by simp
next
  case False
  have "ilog2 f = - 1"
    by (rule ilog2_eq) (use False assms in \<open>simp_all add: power_int_minus_divide\<close>)
  then have q: "quantum_exp f = - 53" by (simp add: quantum_exp_def)
  obtain m where f: "f = real_of_int m * 2 powi (- 53)"
    using assms(1) q by (metis double_shape)
  then have "real_of_int m < 2 ^ 53"
    using assms(3) by (simp add: power_int_minus_divide)
  then have "m < 2 ^ 53" by (metis of_int_less_numeral_power_cancel_iff)
  then have "m \<le> 2 ^ 53 - 1" by simp
  then have "real_of_int m \<le> real_of_int (2 ^ 53 - 1)" by (simp only: of_int_le_iff)
  then show ?thesis by (simp add: f power_int_minus_divide)
qed

lemma round_double_top_nsec:
  "round_double (1000000000 * (1 - 1 / 2 ^ 53)) = 1000000000 - 1 / 2 ^ 23"
  by code_simp

lemma scaled_fraction_bounds:
  assumes "round_double f = f" and "\<bar>f\<bar> < 1"
  shows "\<bar>round_double (1000000000 * f)\<bar> \<le> 1000000000 - 1 / 2 ^ 23"
proof -
  have pos: "round_double (1000000000 * g) \<le> 1000000000 - 1 / 2 ^ 23"
    if "round_double g = g" and "0 \<le> g" and "g < 1" for g
  proof -
    have "g \<le> 1 - 1 / 2 ^ 53" using that by (rule double_below_one)
    then have "1000000000 * g \<le> 1000000000 * (1 - 1 / 2 ^ 53)" by simp
    then have "round_double (1000000000 * g) \<le> round_double (1000000000 * (1 - 1 / 2 ^ 53))"
      by (rule round_double_mono)
    then show ?thesis by (simp only: round_double_top_nsec)
  qed
  show ?thesis
  proof (cases "0 \<le> f")
    case True
    then have "0 \<le> round_double (1000000000 * f)" by (simp add: round_double_nonneg)
    moreover have "round_double (1000000000 * f) \<le> 1000000000 - 1 / 2 ^ 23"
      using assms True by (intro pos) simp_all
    ultimately show ?thesis by simp
  next
    case False
    then have "round_double (1000000000 * f) \<le> 0" by (simp add: round_double_nonpos)
    moreover have "round_double (1000000000 * (- f)) \<le> 1000000000 - 1 / 2 ^ 23"
      using assms False by (intro pos) (simp_all add: round_double_minus)
    moreover have "round_double (1000000000 * (- f)) = - round_double (1000000000 * f)"
      by (simp only: mult_minus_right round_double_minus)
    ultimately show ?thesis by simp
  qed
qed

lemma c_trunc_abs_le:
  assumes "\<bar>z\<bar> < real_of_int n + 1"
  shows "\<bar>c_trunc z\<bar> \<le> n"
proof (cases "0 \<le> z")
  case True
  then have "0 \<le> \<lfloor>z\<rfloor>" by simp
  moreover have "z < real_of_int n + 1" using assms by simp
  then have "\<lfloor>z\<rfloor> \<le> n" by (simp only: floor_le_iff)
  ultimately show ?thesis using True by (simp add: c_trunc_def)
next
  case False
  then have "\<lceil>z\<rceil> \<le> 0" by (simp add: ceiling_le_iff)
  moreover have "real_of_int (- n) - 1 < z" using assms by simp
  then have "- n \<le> \<lceil>z\<rceil>" by (simp only: le_ceiling_iff)
  ultimately have "\<bar>\<lceil>z\<rceil>\<bar> \<le> n" by linarith
  then show ?thesis using False by (simp only: c_trunc_def if_False)
qed

subsection \<open>Rounding error and nearness\<close>

lemma round_double_error: "\<bar>round_double x - x\<bar> \<le> 2 powi quantum_exp x / 2"
proof -
  define q where "q = quantum_exp x"
  have e: "round_double x - x = (real_of_int (rne (x / 2 powi q)) - x / 2 powi q) * 2 powi q"
    by (simp add: round_double_def q_def algebra_simps)
  have "\<bar>round_double x - x\<bar> = \<bar>real_of_int (rne (x / 2 powi q)) - x / 2 powi q\<bar> * 2 powi q"
    by (simp add: e abs_mult)
  also have "\<dots> \<le> 1 / 2 * 2 powi q"
    by (intro mult_right_mono rne_error) simp
  finally show ?thesis by (simp add: q_def)
qed

lemma round_double_error_below:
  assumes "\<bar>x\<bar> < 2 powi k" and "- 1021 \<le> k"
  shows "\<bar>round_double x - x\<bar> \<le> 2 powi (k - 54)"
proof (cases "x = 0")
  case True
  then show ?thesis by (simp add: round_double_0)
next
  case False
  then have "ilog2 x < k" using assms(1) by (rule ilog2_less)
  then have "quantum_exp x \<le> k - 53" using assms(2) by (simp add: quantum_exp_def)
  then have "(2::real) powi quantum_exp x \<le> 2 powi (k - 53)" by (simp add: power_int_increasing)
  moreover have "(2::real) powi (k - 53) / 2 = 2 powi (k - 54)"
    by (simp add: power_int_diff)
  ultimately show ?thesis using round_double_error [of x] by linarith
qed

text \<open>No double is nearer to \<open>x\<close> than \<open>round_double x\<close>.\<close>

lemma round_double_nearest_multiple:
  assumes "d = real_of_int k * 2 powi quantum_exp x"
  shows "\<bar>round_double x - x\<bar> \<le> \<bar>d - x\<bar>"
proof -
  define q where "q = quantum_exp x"
  have e: "round_double x - x = (real_of_int (rne (x / 2 powi q)) - x / 2 powi q) * 2 powi q"
    by (simp add: round_double_def q_def algebra_simps)
  have c: "d - x = (real_of_int k - x / 2 powi q) * 2 powi q"
    by (simp add: assms q_def algebra_simps)
  have "\<bar>round_double x - x\<bar> = \<bar>real_of_int (rne (x / 2 powi q)) - x / 2 powi q\<bar> * 2 powi q"
    by (simp add: e abs_mult)
  also have "\<dots> \<le> \<bar>real_of_int k - x / 2 powi q\<bar> * 2 powi q"
    by (intro mult_right_mono rne_nearest) simp
  also have "\<dots> = \<bar>d - x\<bar>"
    by (simp add: c abs_mult)
  finally show ?thesis .
qed

lemma multiple_of_smaller_quantum:
  assumes "d = real_of_int m * 2 powi e" and "q \<le> e"
  shows "d = real_of_int (m * 2 ^ nat (e - q)) * 2 powi q"
proof -
  have "(2::real) powi e = 2 powi (e - q) * 2 powi q" by (simp flip: power_int_add)
  also have "\<dots> = 2 ^ nat (e - q) * 2 powi q" using assms(2) by (simp add: power_int_nonneg_exp)
  finally show ?thesis by (simp add: assms(1))
qed

lemma round_double_nearest:
  assumes "round_double d = d"
  shows "\<bar>round_double x - x\<bar> \<le> \<bar>d - x\<bar>"
proof (cases "x = 0 \<or> d = 0 \<or> quantum_exp x \<le> quantum_exp d")
  case True
  then consider "x = 0" | "d = 0" | "quantum_exp x \<le> quantum_exp d" by blast
  then show ?thesis
  proof cases
    case 1
    then show ?thesis by (simp add: round_double_0)
  next
    case 2
    then have "d = real_of_int 0 * 2 powi quantum_exp x" by simp
    then show ?thesis by (rule round_double_nearest_multiple)
  next
    case 3
    obtain m where "d = real_of_int m * 2 powi quantum_exp d"
      using assms by (rule double_shape)
    then have "d = real_of_int (m * 2 ^ nat (quantum_exp d - quantum_exp x)) * 2 powi quantum_exp x"
      using 3 by (rule multiple_of_smaller_quantum)
    then show ?thesis by (rule round_double_nearest_multiple)
  qed
next
  case False
  then have x: "x \<noteq> 0" and d: "d \<noteq> 0" and lt: "quantum_exp d < quantum_exp x" by simp_all
  have qx: "quantum_exp x = ilog2 x - 52"
    using lt quantum_exp_ge [of d] by (auto simp: quantum_exp_def max_def split: if_splits)
  then have "ilog2 d - 52 < ilog2 x - 52" using lt by (simp add: quantum_exp_def)
  then have "ilog2 d + 1 \<le> ilog2 x" by simp
  then have "(2::real) powi (ilog2 d + 1) \<le> 2 powi ilog2 x" by (simp add: power_int_increasing)
  then have dB: "\<bar>d\<bar> < 2 powi ilog2 x" using ilog2_upper [OF d] by linarith
  have Bx: "2 powi ilog2 x \<le> \<bar>x\<bar>" using x by (rule ilog2_lower)
  define sg :: int where "sg = (if 0 < x then 1 else - 1)"
  define B where "B = real_of_int sg * 2 powi ilog2 x"
  have "B = real_of_int (sg * 2 ^ nat (ilog2 x - quantum_exp x)) * 2 powi quantum_exp x"
    unfolding B_def by (rule multiple_of_smaller_quantum [OF refl]) (simp add: qx)
  then have "\<bar>round_double x - x\<bar> \<le> \<bar>B - x\<bar>" by (rule round_double_nearest_multiple)
  also have "\<bar>B - x\<bar> = \<bar>x\<bar> - 2 powi ilog2 x"
    using Bx x by (simp add: B_def sg_def)
  also have "\<dots> \<le> \<bar>x\<bar> - \<bar>d\<bar>" using dB by simp
  also have "\<dots> \<le> \<bar>d - x\<bar>" by simp
  finally show ?thesis .
qed

lemma c_trunc_int_range:
  assumes "- (2 ^ 31) - 1 < x" and "x < 2 ^ 31"
  shows "INT_MIN \<le> c_trunc x" and "c_trunc x \<le> INT_MAX"
proof -
  have "\<bar>x\<bar> < real_of_int (2 ^ 31) + 1" using assms by simp
  then have "\<bar>c_trunc x\<bar> \<le> 2 ^ 31" by (rule c_trunc_abs_le)
  then show "INT_MIN \<le> c_trunc x" by (simp add: INT_MIN_def)
  show "c_trunc x \<le> INT_MAX"
  proof (cases "0 \<le> x")
    case True
    have "\<lfloor>x\<rfloor> < 2 ^ 31" using assms(2) by (simp add: floor_less_iff)
    then show ?thesis using True by (simp add: c_trunc_def INT_MAX_def)
  next
    case False
    then have "\<lceil>x\<rceil> \<le> 0" by (simp add: ceiling_le_iff)
    then show ?thesis using False by (simp add: c_trunc_def INT_MAX_def)
  qed
qed


lemma equal_multiples:
  assumes "a = real_of_int k * 2 powi e" and "b = real_of_int m * 2 powi e"
    and "\<bar>a - b\<bar> < 2 powi e"
  shows "a = b"
proof -
  have "a - b = real_of_int (k - m) * 2 powi e" by (simp add: assms(1,2) algebra_simps)
  then have "\<bar>real_of_int (k - m)\<bar> * 2 powi e < 1 * 2 powi e"
    using assms(3) by (simp add: abs_mult)
  then have "\<bar>real_of_int (k - m)\<bar> < 1" by (simp only: mult_less_cancel_right_pos two_powi_pos)
  then have "\<bar>k - m\<bar> < 1" by linarith
  then show ?thesis by (simp add: assms(1,2))
qed

subsection \<open>The rounding function and the format\<close>

text \<open>
  \<open>round_double\<close> is compared with the format's own definition of a correctly rounded
  result: the result is a binary64 number, no binary64 number is nearer, and in a tie
  the result is the candidate with the even significand.
\<close>

lemma rne_tie:
  assumes "k \<noteq> rne y" and "\<bar>real_of_int k - y\<bar> = \<bar>real_of_int (rne y) - y\<bar>"
  shows "even (rne y)" and "\<bar>rne y - k\<bar> = 1"
proof -
  define m where "m = rne y"
  have e: "\<bar>real_of_int m - y\<bar> \<le> 1 / 2" unfolding m_def by (rule rne_error)
  have eq: "\<bar>real_of_int k - y\<bar> = \<bar>real_of_int m - y\<bar>" using assms(2) by (simp add: m_def)
  have "\<bar>real_of_int m - real_of_int k\<bar> \<le> 1" using e eq by linarith
  then have "\<bar>real_of_int (m - k)\<bar> \<le> real_of_int 1" by simp
  then have "\<bar>m - k\<bar> \<le> 1" by (simp only: of_int_abs [symmetric] of_int_le_iff)
  moreover have "m \<noteq> k" using assms(1) by (simp add: m_def)
  ultimately have d: "\<bar>m - k\<bar> = 1" by linarith
  then show "\<bar>rne y - k\<bar> = 1" by (simp add: m_def)
  have "real_of_int \<bar>m - k\<bar> = 1" by (simp only: d of_int_1)
  then have "\<bar>real_of_int (m - k)\<bar> = 1" by simp
  then have "\<bar>real_of_int m - real_of_int k\<bar> = 1" by simp
  then have half: "\<bar>real_of_int m - y\<bar> = 1 / 2" using e eq by linarith
  have lo: "\<lfloor>y\<rfloor> \<le> m" unfolding m_def by (rule rne_floor_le)
  have hi: "m \<le> \<lfloor>y\<rfloor> + 1" unfolding m_def by (rule rne_le_floor_plus)
  have "y - real_of_int \<lfloor>y\<rfloor> = 1 / 2"
  proof (cases "m = \<lfloor>y\<rfloor>")
    case True
    then show ?thesis using half by linarith
  next
    case False
    then have "m = \<lfloor>y\<rfloor> + 1" using lo hi by linarith
    then have "real_of_int m = real_of_int \<lfloor>y\<rfloor> + 1" by simp
    then show ?thesis using half by linarith
  qed
  then have "rne y = (if even \<lfloor>y\<rfloor> then \<lfloor>y\<rfloor> else \<lfloor>y\<rfloor> + 1)"
    by (simp add: rne_def Let_def)
  then show "even (rne y)" by simp
qed

lemma ilog2_le:
  assumes "x \<noteq> 0" and "\<bar>x\<bar> \<le> 2 powi k"
  shows "ilog2 x \<le> k"
proof -
  have "(2::real) powi k < 2 powi (k + 1)" by (simp add: power_int_add)
  then have "\<bar>x\<bar> < 2 powi (k + 1)" using assms(2) by linarith
  with assms(1) have "ilog2 x < k + 1" by (rule ilog2_less)
  then show ?thesis by simp
qed

lemma round_double_abs_le:
  assumes "\<bar>x\<bar> \<le> 2 powi k" and "- 1022 \<le> k"
  shows "\<bar>round_double x\<bar> \<le> 2 powi k"
proof (cases "x = 0")
  case True
  then show ?thesis by (simp add: round_double_0)
next
  case False
  then have "ilog2 x \<le> k" using assms(1) by (rule ilog2_le)
  then have q: "quantum_exp x \<le> k" using assms(2) by (simp add: quantum_exp_def)
  have "x \<le> 2 powi k" using assms(1) by linarith
  then have up: "round_double x \<le> 2 powi k"
    by (rule round_double_le_multiple [where m = 1 and e = k]) (simp_all add: q)
  have "- (2 powi k) \<le> x" using assms(1) by linarith
  then have "- (2 powi k) \<le> round_double x"
    by (rule round_double_ge_multiple [where m = "- 1" and e = k]) (simp_all add: q)
  with up show ?thesis by linarith
qed

lemma rne_abs_le:
  assumes "\<bar>y\<bar> \<le> real_of_int n"
  shows "\<bar>rne y\<bar> \<le> n"
proof -
  have "y \<le> real_of_int n" using assms by linarith
  then have "rne y \<le> rne (real_of_int n)" by (rule rne_mono)
  then have up: "rne y \<le> n" by (simp add: rne_of_int)
  have "real_of_int (- n) \<le> y" using assms by simp
  then have "rne (real_of_int (- n)) \<le> rne y" by (rule rne_mono)
  then have "- n \<le> rne y" by (simp only: rne_of_int)
  with up show ?thesis by linarith
qed

lemma binary64_0: "binary64 0"
  unfolding binary64_def by (rule exI [of _ 0], rule exI [of _ 0]) simp

lemma round_double_binary64:
  assumes "\<bar>x\<bar> < 2 powi 1023"
  shows "binary64 (round_double x)"
proof (cases "x = 0")
  case True
  then show ?thesis by (simp add: round_double_0 binary64_0)
next
  case False
  define q where "q = quantum_exp x"
  define m where "m = rne (x / 2 powi q)"
  have r: "round_double x = real_of_int m * 2 powi q"
    by (simp add: round_double_def m_def q_def)
  have "ilog2 x < 1023" using False assms by (rule ilog2_less)
  then have q970: "q \<le> 970" by (simp add: q_def quantum_exp_def)
  have q1074: "- 1074 \<le> q" unfolding q_def by (rule quantum_exp_ge)
  have "ilog2 x + 1 \<le> q + 53" by (simp add: q_def quantum_exp_def)
  then have "(2::real) powi (ilog2 x + 1) \<le> 2 powi (q + 53)"
    by (simp add: power_int_increasing)
  moreover have "\<bar>x\<bar> < 2 powi (ilog2 x + 1)" using False by (rule ilog2_upper)
  ultimately have "\<bar>x\<bar> < 2 powi (q + 53)" by linarith
  then have "\<bar>x\<bar> < 2 ^ 53 * 2 powi q" by (simp add: power_int_add mult.commute)
  then have "\<bar>x\<bar> / 2 powi q < 2 ^ 53" by (simp add: pos_divide_less_eq two_powi_pos)
  then have "\<bar>x / 2 powi q\<bar> \<le> real_of_int (2 ^ 53)" by simp
  then have m53: "\<bar>m\<bar> \<le> 2 ^ 53" unfolding m_def by (rule rne_abs_le)
  show ?thesis
  proof (cases "\<bar>m\<bar> < 2 ^ 53")
    case True
    then have "round_double x = real_of_int m * 2 powi q \<and> \<bar>m\<bar> < 2 ^ 53 \<and> - 1074 \<le> q \<and> q \<le> 971"
      using r q1074 q970 by simp
    then show ?thesis unfolding binary64_def by blast
  next
    case False
    then have "m = 2 ^ 53 \<or> m = - (2 ^ 53)" using m53 by linarith
    then obtain s :: int where s: "m = s * 2" and s52: "\<bar>s\<bar> < 2 ^ 53"
    proof
      assume "m = 2 ^ 53"
      then have "m = 2 ^ 52 * 2" "\<bar>2 ^ 52 :: int\<bar> < 2 ^ 53" by simp_all
      then show ?thesis by (rule that)
    next
      assume "m = - (2 ^ 53)"
      then have "m = (- (2 ^ 52)) * 2" "\<bar>- (2 ^ 52) :: int\<bar> < 2 ^ 53" by simp_all
      then show ?thesis by (rule that)
    qed
    have "round_double x = real_of_int s * 2 powi (q + 1)"
      by (simp add: r s power_int_add)
    then have "round_double x = real_of_int s * 2 powi (q + 1) \<and> \<bar>s\<bar> < 2 ^ 53 \<and>
        - 1074 \<le> q + 1 \<and> q + 1 \<le> 971"
      using s52 q1074 q970 by simp
    then show ?thesis unfolding binary64_def by blast
  qed
qed

lemma binary64_fix:
  assumes "binary64 d"
  shows "round_double d = d"
proof -
  obtain m e where "d = real_of_int m * 2 powi e" "\<bar>m\<bar> < 2 ^ 53" "- 1074 \<le> e"
    using assms unfolding binary64_def by blast
  then show ?thesis by (rule round_double_fixI)
qed

text \<open>
  A double as near to \<open>x\<close> as the rounded value, and different from it, is the other
  neighbour of a midpoint: the two are one quantum apart and the rounded value is the
  even multiple of the quantum.
\<close>

lemma round_double_tie:
  assumes "round_double d = d" and "d \<noteq> round_double x"
    and "\<bar>d - x\<bar> = \<bar>round_double x - x\<bar>"
  shows "\<exists>k. round_double x = real_of_int k * (2 * \<bar>round_double x - d\<bar>)"
proof -
  define q where "q = quantum_exp x"
  define u :: real where "u = 2 powi q"
  define m where "m = rne (x / u)"
  have u: "0 < u" unfolding u_def by (rule two_powi_pos)
  have r: "round_double x = real_of_int m * u"
    by (simp add: round_double_def m_def q_def u_def)
  have x0: "x \<noteq> 0"
  proof
    assume "x = 0"
    then have "d = round_double x" using assms(3) by (simp add: round_double_0)
    with assms(2) show False by simp
  qed
  obtain md where md: "d = real_of_int md * 2 powi quantum_exp d"
    using assms(1) by (rule double_shape)
  have "q \<le> quantum_exp d"
  proof (rule ccontr)
    assume "\<not> q \<le> quantum_exp d"
    then have less: "quantum_exp d < q" by simp
    have "- 1074 \<le> quantum_exp d" by (rule quantum_exp_ge)
    then have "- 1074 < q" using less by linarith
    then have qL: "q = ilog2 x - 52" by (simp add: q_def quantum_exp_def)
    have "ilog2 d - 52 \<le> quantum_exp d" by (simp add: quantum_exp_def)
    then have dl: "ilog2 d + 1 \<le> ilog2 x" using less qL by linarith
    have dlt: "\<bar>d\<bar> < 2 powi ilog2 x"
    proof (cases "d = 0")
      case True
      then show ?thesis by (simp add: two_powi_pos)
    next
      case False
      then have "\<bar>d\<bar> < 2 powi (ilog2 d + 1)" by (rule ilog2_upper)
      moreover have "(2::real) powi (ilog2 d + 1) \<le> 2 powi ilog2 x"
        using dl by (simp add: power_int_increasing)
      ultimately show ?thesis by linarith
    qed
    have xl: "2 powi ilog2 x \<le> \<bar>x\<bar>" using x0 by (rule ilog2_lower)
    have L: "(2::real) powi ilog2 x = 2 ^ 52 * 2 powi q"
      by (simp add: qL power_int_diff)
    show False
    proof (cases "0 < x")
      case True
      have "2 powi ilog2 x = real_of_int (2 ^ 52) * 2 powi quantum_exp x"
        using L by (simp add: q_def)
      then have "\<bar>round_double x - x\<bar> \<le> \<bar>2 powi ilog2 x - x\<bar>"
        by (rule round_double_nearest_multiple)
      then show False using True dlt xl assms(3) by linarith
    next
      case False
      then have neg: "x < 0" using x0 by simp
      have "- (2 powi ilog2 x) = real_of_int (- (2 ^ 52)) * 2 powi quantum_exp x"
        using L by (simp add: q_def)
      then have "\<bar>round_double x - x\<bar> \<le> \<bar>- (2 powi ilog2 x) - x\<bar>"
        by (rule round_double_nearest_multiple)
      then show False using neg dlt xl assms(3) by linarith
    qed
  qed
  with md have "d = real_of_int (md * 2 ^ nat (quantum_exp d - q)) * 2 powi q"
    by (rule multiple_of_smaller_quantum)
  then obtain kd where kd: "d = real_of_int kd * u" unfolding u_def by blast
  have xu: "x = (x / u) * u" using u by simp
  have "\<bar>real_of_int kd - x / u\<bar> * u = \<bar>(real_of_int kd - x / u) * u\<bar>"
    using u by (simp add: abs_mult)
  also have "\<dots> = \<bar>d - x\<bar>" using u by (simp add: kd left_diff_distrib)
  also have "\<dots> = \<bar>(real_of_int m - x / u) * u\<bar>"
    using u by (simp add: assms(3) r left_diff_distrib)
  also have "\<dots> = \<bar>real_of_int m - x / u\<bar> * u" using u by (simp add: abs_mult)
  finally have tie: "\<bar>real_of_int kd - x / u\<bar> = \<bar>real_of_int (rne (x / u)) - x / u\<bar>"
    using u by (simp add: m_def)
  have ne: "kd \<noteq> rne (x / u)"
    using assms(2) by (auto simp: kd r m_def)
  have ev: "even m" and one: "\<bar>m - kd\<bar> = 1"
    using rne_tie [OF ne tie] by (simp_all add: m_def)
  have "\<bar>round_double x - d\<bar> = \<bar>real_of_int (m - kd)\<bar> * u"
    using u by (simp add: r kd left_diff_distrib [symmetric] abs_mult)
  also have "\<dots> = real_of_int \<bar>m - kd\<bar> * u" by simp
  also have "\<dots> = u" by (simp only: one of_int_1 mult_1)
  finally have dist: "\<bar>round_double x - d\<bar> = u" .
  obtain h where h: "m = 2 * h" using ev by (auto elim: evenE)
  have rr: "round_double x = real_of_int h * (2 * u)" by (simp add: r h)
  have "real_of_int h * (2 * u) = real_of_int h * (2 * \<bar>round_double x - d\<bar>)"
    by (simp only: dist)
  with rr have "round_double x = real_of_int h * (2 * \<bar>round_double x - d\<bar>)"
    by (rule trans)
  then show ?thesis by blast
qed

lemma correctly_rounded_round_double:
  assumes "\<bar>x\<bar> < 2 powi 1023"
  shows "correctly_rounded x (round_double x)"
  unfolding correctly_rounded_def
proof (intro conjI allI impI)
  show "binary64 (round_double x)" using assms by (rule round_double_binary64)
next
  fix d assume "binary64 d"
  then have "round_double d = d" by (rule binary64_fix)
  then show "\<bar>round_double x - x\<bar> \<le> \<bar>d - x\<bar>" by (rule round_double_nearest)
next
  fix d assume "binary64 d" and t: "d \<noteq> round_double x \<and> \<bar>d - x\<bar> = \<bar>round_double x - x\<bar>"
  then have "round_double d = d" by (simp add: binary64_fix)
  then show "\<exists>k. round_double x = real_of_int k * (2 * \<bar>round_double x - d\<bar>)"
    using t by (auto intro: round_double_tie)
qed

text \<open>The format's definition determines the rounded value.\<close>

lemma correctly_rounded_unique:
  assumes "correctly_rounded x r" and "correctly_rounded x r'"
  shows "r = r'"
proof (rule ccontr)
  assume ne: "r \<noteq> r'"
  have b: "binary64 r" "binary64 r'" using assms by (simp_all add: correctly_rounded_def)
  have "\<bar>r - x\<bar> \<le> \<bar>r' - x\<bar>" using assms(1) b(2) by (simp add: correctly_rounded_def)
  moreover have "\<bar>r' - x\<bar> \<le> \<bar>r - x\<bar>" using assms(2) b(1) by (simp add: correctly_rounded_def)
  ultimately have eq: "\<bar>r' - x\<bar> = \<bar>r - x\<bar>" by linarith
  define e where "e = \<bar>r - r'\<bar>"
  have e: "0 < e" using ne by (simp add: e_def)
  have "\<exists>k. r = real_of_int k * (2 * \<bar>r - r'\<bar>)"
    using assms(1) b(2) ne eq unfolding correctly_rounded_def by metis
  then obtain k where k: "r = real_of_int k * (2 * e)" by (auto simp: e_def)
  have "\<exists>k. r' = real_of_int k * (2 * \<bar>r' - r\<bar>)"
    using assms(2) b(1) ne eq unfolding correctly_rounded_def by metis
  then obtain k' where k': "r' = real_of_int k' * (2 * e)" by (auto simp: e_def abs_minus_commute)
  have er: "\<bar>r - r'\<bar> = e" by (simp add: e_def)
  have "r - r' = real_of_int (k - k') * (2 * e)" by (simp add: k k' left_diff_distrib)
  then have "\<bar>r - r'\<bar> = \<bar>real_of_int (k - k') * (2 * e)\<bar>" by (simp only:)
  then have "e = \<bar>real_of_int (k - k')\<bar> * (2 * e)" using e by (simp add: er abs_mult)
  then have "\<bar>real_of_int (k - k')\<bar> * 2 = 1" using e by simp
  then have "real_of_int (\<bar>k - k'\<bar> * 2) = real_of_int 1" by simp
  then have "\<bar>k - k'\<bar> * 2 = 1" by (simp only: of_int_eq_iff)
  then show False by presburger
qed

text \<open>
  For the fields of a timespec, which are 64-bit integers, the expression
  \<open>(double)tv_sec + (double)tv_nsec / 1e9\<close> as the module computes it is
  \<open>seconds + nanoseconds / 1e9\<close> in double precision.
\<close>

lemma of_int_long_abs:
  assumes "LONG_MIN \<le> n" and "n \<le> LONG_MAX"
  shows "\<bar>real_of_int n\<bar> \<le> 2 powi 63"
proof -
  have "- (2 ^ 63) \<le> n" "n \<le> 2 ^ 63" using assms by (simp_all add: LONG_MIN_def LONG_MAX_def)
  then have "real_of_int (- (2 ^ 63)) \<le> real_of_int n" "real_of_int n \<le> real_of_int (2 ^ 63)"
    by (simp_all only: of_int_le_iff)
  then show ?thesis by simp
qed

lemma less_2_powi_1023:
  assumes "\<bar>x\<bar> \<le> 2 powi k" and "k < 1023"
  shows "\<bar>x::real\<bar> < 2 powi 1023"
proof -
  have "(2::real) powi k < 2 powi 1023" using assms(2) by (intro power_int_strict_increasing) simp_all
  with assms(1) show ?thesis by linarith
qed

lemma timespec_to_double_correct:
  assumes "LONG_MIN \<le> tv_sec ts" and "tv_sec ts \<le> LONG_MAX"
    and "LONG_MIN \<le> tv_nsec ts" and "tv_nsec ts \<le> LONG_MAX"
  shows "seconds_plus_nanoseconds (tv_sec ts) (tv_nsec ts) (timespec_to_double ts)"
proof -
  define S where "S = round_double (real_of_int (tv_sec ts))"
  define N where "N = round_double (real_of_int (tv_nsec ts))"
  define Q where "Q = round_double (N / 1000000000)"
  have s: "\<bar>real_of_int (tv_sec ts)\<bar> \<le> 2 powi 63" using assms(1,2) by (rule of_int_long_abs)
  have n: "\<bar>real_of_int (tv_nsec ts)\<bar> \<le> 2 powi 63" using assms(3,4) by (rule of_int_long_abs)
  have S: "\<bar>S\<bar> \<le> 2 powi 63" unfolding S_def using s by (rule round_double_abs_le) simp
  have N: "\<bar>N\<bar> \<le> 2 powi 63" unfolding N_def using n by (rule round_double_abs_le) simp
  have "\<bar>N / 1000000000\<bar> \<le> \<bar>N\<bar>" by (simp add: divide_le_eq)
  then have q: "\<bar>N / 1000000000\<bar> \<le> 2 powi 63" using N by linarith
  then have Q: "\<bar>Q\<bar> \<le> 2 powi 63" unfolding Q_def by (rule round_double_abs_le) simp
  have "\<bar>S + Q\<bar> \<le> 2 powi 63 + 2 powi 63" using S Q by linarith
  then have sq: "\<bar>S + Q\<bar> \<le> 2 powi 64" by simp
  have 1: "correctly_rounded (real_of_int (tv_sec ts)) S"
    unfolding S_def by (rule correctly_rounded_round_double, rule less_2_powi_1023 [OF s]) simp
  have 2: "correctly_rounded (real_of_int (tv_nsec ts)) N"
    unfolding N_def by (rule correctly_rounded_round_double, rule less_2_powi_1023 [OF n]) simp
  have 3: "correctly_rounded (N / 1000000000) Q"
    unfolding Q_def by (rule correctly_rounded_round_double, rule less_2_powi_1023 [OF q]) simp
  have 4: "correctly_rounded (S + Q) (round_double (S + Q))"
    by (rule correctly_rounded_round_double, rule less_2_powi_1023 [OF sq]) simp
  have "timespec_to_double ts = round_double (S + Q)"
    by (simp add: timespec_to_double_def dadd_def ddiv_def int_to_double_def S_def N_def Q_def)
  with 1 2 3 4 show ?thesis unfolding seconds_plus_nanoseconds_def by metis
qed

lemma seconds_plus_nanoseconds_unique:
  assumes "seconds_plus_nanoseconds sec nsec r" and "seconds_plus_nanoseconds sec nsec r'"
  shows "r = r'"
proof -
  obtain S N Q where a: "correctly_rounded (real_of_int sec) S"
      "correctly_rounded (real_of_int nsec) N" "correctly_rounded (N / 1000000000) Q"
      "correctly_rounded (S + Q) r"
    using assms(1) unfolding seconds_plus_nanoseconds_def by blast
  obtain S' N' Q' where b: "correctly_rounded (real_of_int sec) S'"
      "correctly_rounded (real_of_int nsec) N'" "correctly_rounded (N' / 1000000000) Q'"
      "correctly_rounded (S' + Q') r'"
    using assms(2) unfolding seconds_plus_nanoseconds_def by blast
  have "S = S'" using a(1) b(1) by (rule correctly_rounded_unique)
  moreover have "N = N'" using a(2) b(2) by (rule correctly_rounded_unique)
  moreover from this have "Q = Q'" using a(3) b(3) by (auto intro: correctly_rounded_unique)
  ultimately show ?thesis using a(4) b(4) by (auto intro: correctly_rounded_unique)
qed

section \<open>The claim about the time read back\<close>

text \<open>
  C7. A successful \<open>timerfd_gettime\<close> returns a pair (remaining time, interval) whose
  components are \<open>seconds + nanoseconds / 1e9\<close> in double precision of the
  \<open>it_value\<close> and the \<open>it_interval\<close> the kernel stored: both fields converted to
  the nearest double, the quotient and the sum each rounded to the nearest double, ties
  to even. Double precision is taken from the format (\<open>correctly_rounded\<close>), which
  determines the result (lemma \<open>seconds_plus_nanoseconds_unique\<close>). The fields of the
  kernel's structure are 64-bit integers.
\<close>

theorem gettime_returns_seconds_plus_nanoseconds:
  assumes "INT_MIN \<le> fd" and "fd \<le> INT_MAX" and "sys_ret (sys fd) \<noteq> - 1"
    and "sys_out (sys fd) = cur"
    and "LONG_MIN \<le> tv_sec (it_value cur)" and "tv_sec (it_value cur) \<le> LONG_MAX"
    and "LONG_MIN \<le> tv_nsec (it_value cur)" and "tv_nsec (it_value cur) \<le> LONG_MAX"
    and "LONG_MIN \<le> tv_sec (it_interval cur)" and "tv_sec (it_interval cur) \<le> LONG_MAX"
    and "LONG_MIN \<le> tv_nsec (it_interval cur)" and "tv_nsec (it_interval cur) \<le> LONG_MAX"
  shows "\<exists>remaining interval.
           timerfd_gettime pending sys fd = Inr (remaining, interval) \<and>
           seconds_plus_nanoseconds (tv_sec (it_value cur)) (tv_nsec (it_value cur)) remaining \<and>
           seconds_plus_nanoseconds (tv_sec (it_interval cur)) (tv_nsec (it_interval cur)) interval"
proof -
  have "timerfd_gettime pending sys fd =
      Inr (timespec_to_double (it_value cur), timespec_to_double (it_interval cur))"
    using assms(1-4) by (simp add: timerfd_gettime_def parse_i_in_range Let_def)
  moreover have "seconds_plus_nanoseconds (tv_sec (it_value cur)) (tv_nsec (it_value cur))
      (timespec_to_double (it_value cur))"
    using assms(5-8) by (rule timespec_to_double_correct)
  moreover have "seconds_plus_nanoseconds (tv_sec (it_interval cur)) (tv_nsec (it_interval cur))
      (timespec_to_double (it_interval cur))"
    using assms(9-12) by (rule timespec_to_double_correct)
  ultimately show ?thesis by blast
qed

text \<open>
  An instance in which every step rounds: \<open>987654321 / 1e9\<close> and the sum
  \<open>123456789 + 0.987654321\<close> are not doubles, and \<open>2 ^ 53 + 1\<close> is a tie between two
  doubles, which goes to the even one.
\<close>

theorem gettime_returns_seconds_plus_nanoseconds_witness:
  "timerfd_gettime None
     (sys_gettime_gives \<lparr>it_interval = \<lparr>tv_sec = 9007199254740993, tv_nsec = 0\<rparr>,
                          it_value = \<lparr>tv_sec = 123456789, tv_nsec = 987654321\<rparr>\<rparr>) 3 =
     Inr (1035630616144757 / 8388608, 9007199254740992) \<and>
   seconds_plus_nanoseconds 123456789 987654321 (1035630616144757 / 8388608) \<and>
   seconds_plus_nanoseconds 9007199254740993 0 9007199254740992 \<and>
   (1035630616144757 / 8388608 :: real) \<noteq> 123456789 + 987654321 / 1000000000"
proof -
  let ?cur = "\<lparr>it_interval = \<lparr>tv_sec = 9007199254740993, tv_nsec = 0\<rparr>,
               it_value = \<lparr>tv_sec = 123456789, tv_nsec = 987654321\<rparr>\<rparr>"
  have e: "timerfd_gettime None (sys_gettime_gives ?cur) 3 =
      Inr (1035630616144757 / 8388608, 9007199254740992)"
    by code_simp
  have "\<exists>remaining interval.
      timerfd_gettime None (sys_gettime_gives ?cur) 3 = Inr (remaining, interval) \<and>
      seconds_plus_nanoseconds (tv_sec (it_value ?cur)) (tv_nsec (it_value ?cur)) remaining \<and>
      seconds_plus_nanoseconds (tv_sec (it_interval ?cur)) (tv_nsec (it_interval ?cur)) interval"
    by (rule gettime_returns_seconds_plus_nanoseconds [where cur = ?cur])
      (simp_all add: sys_gettime_gives_def INT_MIN_def INT_MAX_def LONG_MIN_def LONG_MAX_def)
  then obtain remaining interval
    where g: "timerfd_gettime None (sys_gettime_gives ?cur) 3 = Inr (remaining, interval)"
      and v: "seconds_plus_nanoseconds 123456789 987654321 remaining"
      and i: "seconds_plus_nanoseconds 9007199254740993 0 interval"
    by auto
  have "(Inr (remaining, interval) :: failure + real \<times> real) =
      Inr (1035630616144757 / 8388608, 9007199254740992)"
    using g e by (rule trans [OF sym])
  then have "remaining = 1035630616144757 / 8388608 \<and> interval = 9007199254740992"
    by (simp only: sum.inject prod.inject)
  with v i have "seconds_plus_nanoseconds 123456789 987654321 (1035630616144757 / 8388608) \<and>
      seconds_plus_nanoseconds 9007199254740993 0 9007199254740992"
    by blast
  with e show ?thesis by simp
qed

section \<open>Durations as timespec\<close>

subsection \<open>The conversion of a duration\<close>

lemma double_of_real_Finite:
  assumes "\<bar>round_double x\<bar> < 2 powi 1024"
  shows "double_of_real x = Finite (round_double x)"
proof -
  have "ilog2 (round_double x) < 1024"
    using assms by (simp add: ilog2_less_iff)
  then show ?thesis by (simp add: double_of_real_def)
qed

lemma double_to_long_Finite:
  assumes "\<bar>z\<bar> < 2 ^ 53"
  shows "double_to_long (Finite z) = c_trunc z"
proof -
  have "\<bar>z\<bar> < real_of_int (2 ^ 53 - 1) + 1" using assms by simp
  then have "\<bar>c_trunc z\<bar> \<le> 2 ^ 53 - 1" by (rule c_trunc_abs_le)
  then have "\<bar>c_trunc z\<bar> \<le> 9007199254740991" by simp
  then have "- 9223372036854775808 \<le> c_trunc z \<and> c_trunc z \<le> 9223372036854775807"
    by linarith
  then show ?thesis by (simp add: double_to_long_def LONG_MIN_def LONG_MAX_def)
qed

text \<open>What \<open>timespec_of_double\<close> computes for a double whose integral part fits an \<open>int\<close>.\<close>

lemma timespec_of_double_int_range:
  assumes "round_double x = x" and "INT_MIN \<le> c_trunc x" and "c_trunc x \<le> INT_MAX"
  shows "timespec_of_double (Finite x) =
           \<lparr>tv_sec = c_trunc x,
            tv_nsec = c_trunc (round_double (1000000000 * (x - real_of_int (c_trunc x))))\<rparr>"
    and "\<bar>c_trunc (round_double (1000000000 * (x - real_of_int (c_trunc x))))\<bar> \<le> 999999999"
proof -
  define t where "t = c_trunc x"
  define f where "f = x - real_of_int t"
  define z where "z = round_double (1000000000 * f)"
  have t: "INT_MIN \<le> t" "t \<le> INT_MAX" using assms(2,3) by (simp_all add: t_def)
  then have "\<bar>t\<bar> < 2 ^ 53" by (simp add: INT_MIN_def INT_MAX_def)
  then have conv: "int_to_double t = real_of_int t" by (rule int_to_double_exact)
  have f: "round_double f = f" unfolding f_def t_def using assms(1) by (rule double_minus_c_trunc_exact)
  have f1: "\<bar>f\<bar> < 1" unfolding f_def t_def by (rule abs_minus_c_trunc_less_1)
  with f have zb: "\<bar>z\<bar> \<le> 1000000000 - 1 / 2 ^ 23" unfolding z_def by (rule scaled_fraction_bounds)
  then have "\<bar>z\<bar> < real_of_int 999999999 + 1" by simp
  then have n: "\<bar>c_trunc z\<bar> \<le> 999999999" by (rule c_trunc_abs_le)
  then show "\<bar>c_trunc (round_double (1000000000 * (x - real_of_int (c_trunc x))))\<bar> \<le> 999999999"
    by (simp add: z_def f_def t_def)
  have sec: "double_to_long (Finite x) = t"
    using t by (simp add: double_to_long_def t_def INT_MIN_def INT_MAX_def LONG_MIN_def LONG_MAX_def)
  have "double_to_int (Finite x) = t"
    using t by (simp add: double_to_int_def t_def)
  then have i: "int_to_double (double_to_int (Finite x)) = real_of_int t"
    by (simp only: conv)
  have "\<bar>round_double f\<bar> < 2 powi 1024" using f f1 by simp
  then have "double_of_real f = Finite f" using f by (simp add: double_of_real_Finite)
  then have sub: "double_sub (Finite x) (Finite (real_of_int t)) = Finite f"
    by (simp add: f_def)
  have "\<bar>z\<bar> < 2 ^ 53" using zb by simp
  then have zl: "double_to_long (Finite z) = c_trunc z" by (rule double_to_long_Finite)
  have "\<bar>z\<bar> < 2 powi 1024" using zb by simp
  then have "double_of_real (1000000000 * f) = Finite z"
    unfolding z_def by (rule double_of_real_Finite)
  then have mul: "double_mul (Finite 1000000000) (Finite f) = Finite z"
    by simp
  show "timespec_of_double (Finite x) =
           \<lparr>tv_sec = c_trunc x,
            tv_nsec = c_trunc (round_double (1000000000 * (x - real_of_int (c_trunc x))))\<rparr>"
    by (simp only: timespec_of_double_def sec i sub mul zl) (simp only: z_def f_def t_def)
qed

lemma timespec_of_double_nonneg:
  assumes "round_double d = d" and "0 \<le> d" and "d < 2 ^ 31"
  shows "timespec_of_double (Finite d) =
           \<lparr>tv_sec = \<lfloor>d\<rfloor>,
            tv_nsec = \<lfloor>round_double (1000000000 * (d - real_of_int \<lfloor>d\<rfloor>))\<rfloor>\<rparr>"
    and "0 \<le> \<lfloor>round_double (1000000000 * (d - real_of_int \<lfloor>d\<rfloor>))\<rfloor>"
    and "\<lfloor>round_double (1000000000 * (d - real_of_int \<lfloor>d\<rfloor>))\<rfloor> \<le> 999999999"
proof -
  have t: "c_trunc d = \<lfloor>d\<rfloor>" using assms(2) by (simp add: c_trunc_def)
  have "\<lfloor>d\<rfloor> < 2 ^ 31" using assms(3) by (simp add: floor_less_iff)
  moreover have "0 \<le> \<lfloor>d\<rfloor>" using assms(2) by simp
  ultimately have r: "INT_MIN \<le> c_trunc d" "c_trunc d \<le> INT_MAX"
    by (simp_all add: t INT_MIN_def INT_MAX_def)
  have "0 \<le> d - real_of_int \<lfloor>d\<rfloor>" by linarith
  then have z: "0 \<le> round_double (1000000000 * (d - real_of_int \<lfloor>d\<rfloor>))"
    by (intro round_double_nonneg) simp
  then have tz: "c_trunc (round_double (1000000000 * (d - real_of_int \<lfloor>d\<rfloor>))) =
      \<lfloor>round_double (1000000000 * (d - real_of_int \<lfloor>d\<rfloor>))\<rfloor>"
    by (simp only: c_trunc_def if_True)
  show "timespec_of_double (Finite d) =
           \<lparr>tv_sec = \<lfloor>d\<rfloor>,
            tv_nsec = \<lfloor>round_double (1000000000 * (d - real_of_int \<lfloor>d\<rfloor>))\<rfloor>\<rparr>"
    using timespec_of_double_int_range(1) [OF assms(1) r] by (simp only: t tz)
  show "0 \<le> \<lfloor>round_double (1000000000 * (d - real_of_int \<lfloor>d\<rfloor>))\<rfloor>"
    using z by simp
  have "\<bar>\<lfloor>round_double (1000000000 * (d - real_of_int \<lfloor>d\<rfloor>))\<rfloor>\<bar> \<le> 999999999"
    using timespec_of_double_int_range(2) [OF assms(1) r] by (simp only: t tz)
  then show "\<lfloor>round_double (1000000000 * (d - real_of_int \<lfloor>d\<rfloor>))\<rfloor> \<le> 999999999"
    by linarith
qed

subsection \<open>Negative durations\<close>



subsection \<open>Durations and back\<close>

lemma round_trip_within:
  assumes "round_double d = d" and "0 \<le> d" and "d < 2 ^ 31"
  shows "\<bar>timespec_to_double (timespec_of_double (Finite d)) - d\<bar> < 2 / 10 ^ 9"
proof -
  define s where "s = \<lfloor>d\<rfloor>"
  define f where "f = d - real_of_int s"
  define z where "z = round_double (1000000000 * f)"
  define n where "n = \<lfloor>z\<rfloor>"
  define y where "y = round_double (real_of_int n / 1000000000)"
  define x where "x = real_of_int s + y"
  note conv = timespec_of_double_nonneg [OF assms, folded s_def, folded f_def, folded z_def,
      folded n_def]
  have s: "0 \<le> s" "s < 2 ^ 31"
    using assms(2,3) by (simp_all add: s_def floor_less_iff)
  have f: "0 \<le> f" "f < 1" unfolding f_def s_def by linarith+
  have n: "0 \<le> n" "n \<le> 999999999" using conv(2,3) .
  have nz: "real_of_int n \<le> z" "z < real_of_int n + 1" unfolding n_def by linarith+
  have "\<bar>1000000000 * f\<bar> < 2 powi 30" using f by simp
  then have "\<bar>z - 1000000000 * f\<bar> \<le> 2 powi (30 - 54)"
    unfolding z_def by (rule round_double_error_below) simp
  then have ez: "\<bar>z - 1000000000 * f\<bar> \<le> 1 / 2 ^ 24" by (simp add: power_int_minus_divide)
  have nf: "\<bar>real_of_int n / 1000000000 - f\<bar> < (1 + 1 / 2 ^ 24) / 1000000000"
  proof -
    have "\<bar>real_of_int n - 1000000000 * f\<bar> < 1 + 1 / 2 ^ 24" using nz ez by linarith
    then have "\<bar>real_of_int n - 1000000000 * f\<bar> / 1000000000 < (1 + 1 / 2 ^ 24) / 1000000000"
      by (simp only: divide_strict_right_mono zero_less_numeral)
    moreover have "real_of_int n / 1000000000 - f = (real_of_int n - 1000000000 * f) / 1000000000"
      by (simp add: field_simps)
    ultimately show ?thesis by (simp only: abs_divide abs_numeral)
  qed
  have "\<bar>real_of_int n / 1000000000\<bar> < 2 powi 0" using n by simp
  then have "\<bar>y - real_of_int n / 1000000000\<bar> \<le> 2 powi (0 - 54)"
    unfolding y_def by (rule round_double_error_below) simp
  then have ey: "\<bar>y - real_of_int n / 1000000000\<bar> \<le> 1 / 2 ^ 54" by (simp add: power_int_minus_divide)
  define eps :: real where "eps = (1 + 1 / 2 ^ 24) / 1000000000 + 1 / 2 ^ 54"
  have xd: "\<bar>x - d\<bar> < eps"
  proof -
    have "x - d = (y - real_of_int n / 1000000000) + (real_of_int n / 1000000000 - f)"
      by (simp add: x_def f_def)
    then show ?thesis unfolding eps_def using nf ey by linarith
  qed
  have eps: "1 / 2 ^ 30 + eps < 2 / 10 ^ 9" "2 * eps < 2 powi (- 28)"
    by (simp_all add: eps_def power_int_minus_divide)
  have y0: "0 \<le> y" unfolding y_def using n by (intro round_double_nonneg) simp
  have y1: "y \<le> 1 - 1 / 2 ^ 30"
  proof -
    have "real_of_int n \<le> 999999999" using n(2) by linarith
    then have "real_of_int n / 1000000000 \<le> 1 - 1 / 2 ^ 30" by simp
    then have "y \<le> round_double (1 - 1 / 2 ^ 30)" unfolding y_def by (rule round_double_mono)
    moreover have "round_double (1 - 1 / 2 ^ 30) = 1 - 1 / 2 ^ 30"
      by (rule round_double_fixI [of _ "2 ^ 30 - 1" "- 30"]) (simp_all add: power_int_minus_divide)
    ultimately show ?thesis by simp
  qed
  have "\<bar>s\<bar> < 2 ^ 53" "\<bar>n\<bar> < 2 ^ 53" using s n by simp_all
  then have rt: "timespec_to_double \<lparr>tv_sec = s, tv_nsec = n\<rparr> = round_double x"
    by (simp add: timespec_to_double_def dadd_def ddiv_def int_to_double_exact x_def y_def)
  have "\<bar>round_double x - d\<bar> < 2 / 10 ^ 9"
  proof (cases "d < 2 ^ 24")
    case True
    then have "s < 2 ^ 24" by (simp add: s_def floor_less_iff)
    then have "s \<le> 2 ^ 24 - 1" by simp
    then have "real_of_int s \<le> real_of_int (2 ^ 24 - 1)" by (simp only: of_int_le_iff)
    then have "real_of_int s \<le> 2 ^ 24 - 1" by simp
    moreover have "0 \<le> real_of_int s" using s(1) by simp
    ultimately have "\<bar>x\<bar> < 2 powi 24" using y0 y1 by (simp add: x_def)
    then have "\<bar>round_double x - x\<bar> \<le> 2 powi (24 - 54)"
      by (rule round_double_error_below) simp
    then have "\<bar>round_double x - x\<bar> \<le> 1 / 2 ^ 30" by (simp add: power_int_minus_divide)
    then show ?thesis using xd eps(1) by linarith
  next
    case False
    then have d24: "2 ^ 24 \<le> d" by simp
    have "\<bar>round_double x - x\<bar> \<le> \<bar>d - x\<bar>" using assms(1) by (rule round_double_nearest)
    then have near: "\<bar>round_double x - d\<bar> < 2 powi (- 28)"
      using xd eps(2) by linarith
    have "2 powi 24 \<le> \<bar>d\<bar>" using d24 by simp
    then have "24 \<le> ilog2 d" by (rule ilog2_ge)
    then have qd: "- 28 \<le> quantum_exp d" by (simp add: quantum_exp_def)
    obtain m where "d = real_of_int m * 2 powi quantum_exp d"
      using assms(1) by (rule double_shape)
    then have dm: "d = real_of_int (m * 2 ^ nat (quantum_exp d - (- 28))) * 2 powi (- 28)"
      using qd by (rule multiple_of_smaller_quantum)
    have "2 ^ 24 \<le> s" using d24 by (simp add: s_def le_floor_iff)
    then have "real_of_int (2 ^ 24) \<le> real_of_int s" by (simp only: of_int_le_iff)
    then have "2 ^ 24 \<le> real_of_int s" by simp
    then have "2 powi 24 \<le> \<bar>x\<bar>" using y0 by (simp add: x_def)
    then have "24 \<le> ilog2 x" by (rule ilog2_ge)
    then have qx: "- 28 \<le> quantum_exp x" by (simp add: quantum_exp_def)
    have "round_double x = real_of_int (rne (x / 2 powi quantum_exp x)) * 2 powi quantum_exp x"
      by (simp add: round_double_def)
    then have xm: "round_double x =
        real_of_int (rne (x / 2 powi quantum_exp x) * 2 ^ nat (quantum_exp x - (- 28))) * 2 powi (- 28)"
      using qx by (rule multiple_of_smaller_quantum)
    have "round_double x = d" using xm dm near by (rule equal_multiples)
    then show ?thesis by simp
  qed
  with conv(1) rt show ?thesis by simp
qed

section \<open>Claims about the conversion of a duration\<close>

text \<open>
  Where the integral part of both durations fits an \<open>int\<close> and both are non-negative,
  the itimerspec handed to the kernel holds, for each duration \<open>d\<close>, the floor of
  \<open>d\<close> as seconds and the floor of the double product of \<open>1e9\<close> and the exact
  fractional remainder \<open>d - \<lfloor>d\<rfloor>\<close> as nanoseconds.
\<close>

lemma settime_new_value_below_2_31:
  assumes "is_double a" and "0 \<le> a" and "a < 2 ^ 31"
    and "is_double b" and "0 \<le> b" and "b < 2 ^ 31"
  shows "settime_new_value (Finite a) (Finite b) =
     \<lparr>it_interval = \<lparr>tv_sec = \<lfloor>b\<rfloor>,
                     tv_nsec = \<lfloor>round_double (1000000000 * (b - real_of_int \<lfloor>b\<rfloor>))\<rfloor>\<rparr>,
      it_value = \<lparr>tv_sec = \<lfloor>a\<rfloor>,
                  tv_nsec = \<lfloor>round_double (1000000000 * (a - real_of_int \<lfloor>a\<rfloor>))\<rfloor>\<rparr>\<rparr>"
proof -
  have "round_double a = a" "round_double b = b" using assms(1,4) by (simp_all add: is_double_def)
  then show ?thesis
    using assms(2,3,5,6) by (simp add: settime_new_value_def timespec_of_double_nonneg(1))
qed

text \<open>
  C1. The claim: for every non-negative finite double \<open>d\<close> passed to
  \<open>timerfd_settime\<close>, the itimerspec handed to the kernel has the floor of \<open>d\<close> as
  seconds and the fractional remainder of \<open>d\<close> scaled by \<open>1e9\<close> as nanoseconds. The
  seconds are taken with \<open>(time_t)value\<close>, but the remainder with \<open>(int)value\<close>: for
  the initial expiration \<open>2147483648.0\<close> (\<open>2 ^ 31\<close> seconds, which \<open>time_t\<close> holds
  and whose fractional remainder is zero) the \<open>int\<close> cast yields \<open>INT_MIN\<close>, the
  remainder becomes \<open>2 ^ 32\<close>, the kernel is handed
  \<open>tv_sec = 2147483648, tv_nsec = 4294967296000000000\<close>, and a kernel that checks the
  nanoseconds answers \<open>EINVAL\<close>.
\<close>

theorem settime_remainder_through_int_cast:
  "is_double 2147483648 \<and>
   settime_new_value (Finite 2147483648) (Finite 0) =
     \<lparr>it_interval = \<lparr>tv_sec = 0, tv_nsec = 0\<rparr>,
      it_value = \<lparr>tv_sec = 2147483648, tv_nsec = 4294967296000000000\<rparr>\<rparr> \<and>
   timerfd_settime pending sys_settime_checked 3 0 (Finite 2147483648) (Finite 0) =
     Inl (OSError EINVAL)"
proof -
  have d: "is_double 2147483648" by code_simp
  have nv: "settime_new_value (Finite 2147483648) (Finite 0) =
     \<lparr>it_interval = \<lparr>tv_sec = 0, tv_nsec = 0\<rparr>,
      it_value = \<lparr>tv_sec = 2147483648, tv_nsec = 4294967296000000000\<rparr>\<rparr>"
    by code_simp
  have "timerfd_settime pending sys_settime_checked 3 0 (Finite 2147483648) (Finite 0) =
     Inl (OSError EINVAL)"
    by (simp add: timerfd_settime_def nv parse_i_def INT_MIN_def INT_MAX_def
        sys_settime_checked_def itimerspec_valid_def timespec_valid_def
        PyErr_SetFromErrno_def EINVAL_def EINTR_def)
  with d nv show ?thesis by simp
qed

text \<open>
  C10. For every finite double \<open>d\<close> with \<open>0 \<le> d < 2 ^ 31\<close> (non-negative, integral part
  within \<open>int\<close>), the nanoseconds field that the conversion of \<open>timerfd_settime\<close>
  computes lies in \<open>[0, 999999999]\<close>.
\<close>

theorem settime_nanoseconds_in_kernel_range:
  assumes "is_double d" and "0 \<le> d" and "d < 2 ^ 31"
  shows "0 \<le> tv_nsec (timespec_of_double (Finite d)) \<and>
         tv_nsec (timespec_of_double (Finite d)) \<le> 999999999"
proof -
  have "round_double d = d" using assms(1) by (simp add: is_double_def)
  then show ?thesis using timespec_of_double_nonneg [OF _ assms(2,3)] by simp
qed

theorem settime_nanoseconds_in_kernel_range_witness:
  "is_double (1 - 1 / 2 ^ 53) \<and> (0::real) \<le> 1 - 1 / 2 ^ 53 \<and> (1 - 1 / 2 ^ 53 :: real) < 2 ^ 31 \<and>
   0 \<le> tv_nsec (timespec_of_double (Finite (1 - 1 / 2 ^ 53))) \<and>
   tv_nsec (timespec_of_double (Finite (1 - 1 / 2 ^ 53))) \<le> 999999999 \<and>
   timespec_of_double (Finite (1 - 1 / 2 ^ 53)) = \<lparr>tv_sec = 0, tv_nsec = 999999999\<rparr>"
proof -
  have h: "is_double (1 - 1 / 2 ^ 53)" by code_simp
  have v: "timespec_of_double (Finite (1 - 1 / 2 ^ 53)) = \<lparr>tv_sec = 0, tv_nsec = 999999999\<rparr>"
    by code_simp
  have "0 \<le> tv_nsec (timespec_of_double (Finite (1 - 1 / 2 ^ 53))) \<and>
        tv_nsec (timespec_of_double (Finite (1 - 1 / 2 ^ 53))) \<le> 999999999"
    by (rule settime_nanoseconds_in_kernel_range [OF h]) simp_all
  with h v show ?thesis by simp
qed




text \<open>
  C2, as amended. For every finite double \<open>d\<close> with \<open>0 \<le> d < 2 ^ 31\<close>, converting
  \<open>d\<close> to (seconds, nanoseconds) as \<open>timerfd_settime\<close> does and converting the
  result back by \<open>(double)seconds + (double)nanoseconds / 1e9\<close> gives a value less than
  \<open>2e-9\<close> away from \<open>d\<close>.
\<close>

theorem round_trip_within_2e_9:
  assumes "is_double d" and "0 \<le> d" and "d < 2 ^ 31"
  shows "\<bar>timespec_to_double (timespec_of_double (Finite d)) - d\<bar> < 2 / 10 ^ 9"
proof -
  have "round_double d = d" using assms(1) by (simp add: is_double_def)
  then show ?thesis using assms(2,3) by (rule round_trip_within)
qed

theorem round_trip_within_2e_9_witness:
  "is_double (8388608 + 15 / 2 ^ 29) \<and> (0::real) \<le> 8388608 + 15 / 2 ^ 29 \<and>
   (8388608 + 15 / 2 ^ 29 :: real) < 2 ^ 31 \<and>
   \<bar>timespec_to_double (timespec_of_double (Finite (8388608 + 15 / 2 ^ 29))) -
      (8388608 + 15 / 2 ^ 29)\<bar> < 2 / 10 ^ 9"
proof -
  have h: "is_double (8388608 + 15 / 2 ^ 29)" by code_simp
  have "\<bar>timespec_to_double (timespec_of_double (Finite (8388608 + 15 / 2 ^ 29))) -
      (8388608 + 15 / 2 ^ 29)\<bar> < 2 / 10 ^ 9"
    by (rule round_trip_within_2e_9 [OF h]) simp_all
  with h show ?thesis by simp
qed

text \<open>
  C2 as stated, within \<open>1e-9\<close> for every non-negative finite double, fails. The double
  \<open>d = 8388608 + 15 * 2 ^ -29\<close> is converted to \<open>(8388608, 27)\<close>, which converts back to
  \<open>8388608 + 14 * 2 ^ -29\<close>: the difference is \<open>2 ^ -29\<close>, about \<open>1.86e-9\<close>.
\<close>

theorem round_trip_misses_1e_9:
  "is_double (8388608 + 15 / 2 ^ 29) \<and>
   timespec_of_double (Finite (8388608 + 15 / 2 ^ 29)) = \<lparr>tv_sec = 8388608, tv_nsec = 27\<rparr> \<and>
   timespec_to_double \<lparr>tv_sec = 8388608, tv_nsec = 27\<rparr> = 8388608 + 14 / 2 ^ 29 \<and>
   \<bar>timespec_to_double \<lparr>tv_sec = 8388608, tv_nsec = 27\<rparr> - (8388608 + 15 / 2 ^ 29)\<bar> > 1 / 10 ^ 9"
  by code_simp

end
